theory Spec2Isabelle
  imports Main
begin

section \<open>The WebSocket bridge of the Index wrapper server\<close>

text \<open>
  The development embeds the per-connection bridge of \<^verbatim>\<open>index-wrapper 2/src/server.js\<close>
  (the callback of
  \<^verbatim>\<open>wss.on('connection', ...)\<close>, lines 86 to 158). The closure variables
  \<^verbatim>\<open>gatewaySocket\<close>, \<^verbatim>\<open>buffer\<close> and \<^verbatim>\<open>alive\<close> become fields of a record, the
  upstream \<^verbatim>\<open>WebSocket\<close> objects live in a store indexed by creation order (the handlers
  read the variable \<^verbatim>\<open>gatewaySocket\<close>, not the socket that emitted the event, so the
  reference is kept apart from the objects), and every call that leaves the bridge
  (\<^verbatim>\<open>clientSocket.send\<close>, \<^verbatim>\<open>gatewaySocket.send\<close>, \<^verbatim>\<open>setTimeout\<close>) is appended
  to a trace. The calls of \<^verbatim>\<open>console.log\<close> and \<^verbatim>\<open>console.error\<close> are left out.
\<close>

subsection \<open>Data\<close>

text \<open>The four values of \<^verbatim>\<open>readyState\<close> of a socket of the \<^verbatim>\<open>ws\<close> library.\<close>

datatype ready_state = CONNECTING | OPEN | CLOSING | CLOSED

text \<open>
  The object literal handed to \<^verbatim>\<open>JSON.stringify\<close> in \<^verbatim>\<open>sendStatus\<close>: its fields in
  order, each a string or a number.
\<close>

datatype json = JString string | JNumber nat

type_synonym json_object = "(string \<times> json) list"

text \<open>
  What is handed to a \<^verbatim>\<open>send\<close>: a frame as it was received from a peer, or the
  serialisation of an object built by the bridge.
\<close>

datatype payload = Raw string | Stringified json_object

datatype effect =
    ClientSend payload
  | GatewaySend nat payload
  | SetTimeout nat

text \<open>\<^verbatim>\<open>new WebSocket(...)\<close> returns an object or throws; the \<^verbatim>\<open>catch\<close> reads \<^verbatim>\<open>e.message\<close>.\<close>

datatype ctor_result = Created | Threw string

text \<open>The only exception a handler can raise itself: a property read on \<^verbatim>\<open>null\<close>.\<close>

datatype js_error = TypeError

record world =
  GATEWAY_WS :: string
  clientSocket :: ready_state
  gatewaySocket :: "nat option"
  buffer :: "payload list"
  alive :: bool
  sockets :: "ready_state list"
  timers :: "nat list"
  now :: nat
  out :: "effect list"

text \<open>
  \<^item> \<open>GATEWAY_WS\<close>: the constant of line 18, fixed at process start;
  \<^item> \<open>clientSocket\<close>: \<^verbatim>\<open>clientSocket.readyState\<close>;
  \<^item> \<open>gatewaySocket\<close>: the variable of line 89, \<open>None\<close> for \<^verbatim>\<open>null\<close>, otherwise the
    position in \<open>sockets\<close> of the object it refers to;
  \<^item> \<open>sockets\<close>: \<^verbatim>\<open>readyState\<close> of every upstream socket constructed so far;
  \<^item> \<open>timers\<close>: the due times of the pending \<^verbatim>\<open>setTimeout(connectGateway, 3000)\<close>;
  \<^item> \<open>now\<close>: the clock, read by \<^verbatim>\<open>Date.now()\<close>;
  \<^item> \<open>out\<close>: the trace of calls made so far, oldest first.
\<close>

datatype event =
    ClientMessage string
  | ClientClosing
  | ClientClose
  | GatewayOpen nat
  | GatewayMessage nat string bool
  | GatewayError nat string
  | GatewayClose nat
  | TimerFire ctor_result
  | Tick nat

subsection \<open>The library the bridge calls\<close>

text \<open>
  \<^verbatim>\<open>send\<close> of the \<^verbatim>\<open>ws\<close> library hands the frame to the transport and leaves
  \<^verbatim>\<open>readyState\<close> as it is (write errors are reported by later events). The handlers below
  take the effect of \<^verbatim>\<open>send\<close> on \<^verbatim>\<open>readyState\<close> as a parameter, so that the flush loop
  can also be studied under a \<^verbatim>\<open>send\<close> that closes the socket.
\<close>

definition ws_send :: "ready_state \<Rightarrow> payload \<Rightarrow> ready_state" where
  "ws_send rs p = rs"

text \<open>
  A frame is a text frame or a binary frame. The library hands a received frame to the
  \<^verbatim>\<open>message\<close> listener as a \<^verbatim>\<open>Buffer\<close> together with the flag \<^verbatim>\<open>isBinary\<close>, and
  \<^verbatim>\<open>send(data)\<close> without options sends a text frame when \<^verbatim>\<open>data\<close> is a string and a
  binary frame otherwise. A \<open>Raw\<close> payload is the \<^verbatim>\<open>Buffer\<close> of a received frame; the
  result of \<^verbatim>\<open>JSON.stringify\<close> is a string.
\<close>

datatype opcode = TextFrame | BinaryFrame

fun ws_opcode :: "payload \<Rightarrow> opcode" where
  "ws_opcode (Raw d) = BinaryFrame"
| "ws_opcode (Stringified obj) = TextFrame"

definition received_opcode :: "bool \<Rightarrow> opcode" where
  "received_opcode isBinary = (if isBinary then BinaryFrame else TextFrame)"

text \<open>
  \<^verbatim>\<open>close()\<close> of the library: nothing on a closed socket, otherwise the socket is
  \<^verbatim>\<open>CLOSING\<close> (a handshake in progress is aborted) until its \<^verbatim>\<open>close\<close> event.
\<close>

definition ws_close :: "ready_state \<Rightarrow> ready_state" where
  "ws_close rs = (if rs = CLOSED then CLOSED else CLOSING)"

subsection \<open>The handlers\<close>

text \<open>Lines 131 to 140.\<close>

definition sendStatus :: "string \<Rightarrow> string \<Rightarrow> world \<Rightarrow> world" where
  "sendStatus state message w =
     (if clientSocket w = OPEN
      then w\<lparr>out := out w @
             [ClientSend (Stringified
                [(''type'', JString ''__index_status''),
                 (''state'', JString state),
                 (''message'', JString message),
                 (''ts'', JNumber (now w))])]\<rparr>
      else w)"

text \<open>
  Lines 93 to 101. The four \<^verbatim>\<open>on(...)\<close> registrations that follow attach the same
  handlers to every socket; \<open>step\<close> below dispatches to them.
\<close>

definition connectGateway :: "ctor_result \<Rightarrow> world \<Rightarrow> world" where
  "connectGateway c w =
     (case c of
        Threw m \<Rightarrow> sendStatus ''error'' (''Cannot create socket: '' @ m) w
      | Created \<Rightarrow>
          w\<lparr>gatewaySocket := Some (length (sockets w)),
            sockets := sockets w @ [CONNECTING]\<rparr>)"

text \<open>\<^verbatim>\<open>gatewaySocket.send(msg)\<close> on the socket at position \<open>g\<close>.\<close>

definition gatewaySend ::
  "(ready_state \<Rightarrow> payload \<Rightarrow> ready_state) \<Rightarrow> nat \<Rightarrow> payload \<Rightarrow> world \<Rightarrow> world" where
  "gatewaySend sendf g msg w =
     w\<lparr>sockets := (sockets w)[g := sendf (sockets w ! g) msg],
       out := out w @ [GatewaySend g msg]\<rparr>"

text \<open>
  Lines 107 to 110: \<^verbatim>\<open>buffer.forEach\<close>, the test of \<^verbatim>\<open>readyState\<close> repeated for every
  element. Reading \<^verbatim>\<open>gatewaySocket.readyState\<close> through \<^verbatim>\<open>null\<close> throws.
\<close>

fun forEach_flush ::
  "(ready_state \<Rightarrow> payload \<Rightarrow> ready_state) \<Rightarrow> payload list \<Rightarrow> world \<Rightarrow> js_error + world" where
  "forEach_flush sendf [] w = Inr w"
| "forEach_flush sendf (msg # msgs) w =
     (case gatewaySocket w of
        None \<Rightarrow> Inl TypeError
      | Some g \<Rightarrow>
          if sockets w ! g = OPEN
          then forEach_flush sendf msgs (gatewaySend sendf g msg w)
          else forEach_flush sendf msgs w)"

text \<open>Lines 103 to 112, the \<^verbatim>\<open>open\<close> handler.\<close>

definition onGatewayOpen ::
  "(ready_state \<Rightarrow> payload \<Rightarrow> ready_state) \<Rightarrow> world \<Rightarrow> js_error + world" where
  "onGatewayOpen sendf w =
     (let w1 = sendStatus ''connected'' (''Gateway live at '' @ GATEWAY_WS w) w
      in case forEach_flush sendf (buffer w1) w1 of
           Inl x \<Rightarrow> Inl x
         | Inr w2 \<Rightarrow> Inr (w2\<lparr>buffer := []\<rparr>))"

text \<open>
  Lines 114 to 117, the \<^verbatim>\<open>message\<close> handler of an upstream socket. The listener is
  \<^verbatim>\<open>(data) => ...\<close>: the second argument of the event, \<^verbatim>\<open>isBinary\<close>, is dropped, and
  \<^verbatim>\<open>clientSocket.send(data)\<close> is called with the \<^verbatim>\<open>Buffer\<close> and no options.
\<close>

definition onGatewayMessage :: "string \<Rightarrow> world \<Rightarrow> world" where
  "onGatewayMessage data w =
     (if clientSocket w = OPEN then w\<lparr>out := out w @ [ClientSend (Raw data)]\<rparr> else w)"

text \<open>
  Lines 119 to 123, the \<^verbatim>\<open>close\<close> handler of an upstream socket. The message holds an
  em dash, three bytes in UTF-8.
\<close>

definition RECONNECT_DELAY :: nat where
  "RECONNECT_DELAY = 3000"

definition closed_message :: string where
  "closed_message = ''Gateway closed '' @ [CHR 0xE2, CHR 0x80, CHR 0x94] @ '' retrying in 3s''"

definition onGatewayClose :: "world \<Rightarrow> world" where
  "onGatewayClose w =
     (let w1 = sendStatus ''disconnected'' closed_message w
      in if alive w1
         then w1\<lparr>timers := timers w1 @ [now w1 + RECONNECT_DELAY],
                 out := out w1 @ [SetTimeout RECONNECT_DELAY]\<rparr>
         else w1)"

text \<open>Lines 125 to 128, the \<^verbatim>\<open>error\<close> handler of an upstream socket.\<close>

definition onGatewayError :: "string \<Rightarrow> world \<Rightarrow> world" where
  "onGatewayError message w = sendStatus ''error'' message w"

text \<open>Lines 143 to 149: \<^verbatim>\<open>gatewaySocket?.readyState\<close> is \<^verbatim>\<open>undefined\<close> through \<^verbatim>\<open>null\<close>.\<close>

definition onClientMessage ::
  "(ready_state \<Rightarrow> payload \<Rightarrow> ready_state) \<Rightarrow> string \<Rightarrow> world \<Rightarrow> world" where
  "onClientMessage sendf data w =
     (case gatewaySocket w of
        None \<Rightarrow> w\<lparr>buffer := buffer w @ [Raw data]\<rparr>
      | Some g \<Rightarrow>
          if sockets w ! g = OPEN
          then gatewaySend sendf g (Raw data) w
          else w\<lparr>buffer := buffer w @ [Raw data]\<rparr>)"

text \<open>Lines 151 to 155.\<close>

definition onClientClose :: "world \<Rightarrow> world" where
  "onClientClose w =
     (let w1 = w\<lparr>alive := False\<rparr>
      in case gatewaySocket w1 of
           None \<Rightarrow> w1
         | Some g \<Rightarrow> w1\<lparr>sockets := (sockets w1)[g := ws_close (sockets w1 ! g)]\<rparr>)"

text \<open>
  Lines 86 to 91 and 157: a browser connection is accepted (its socket is open), the three
  variables are initialised and \<^verbatim>\<open>connectGateway()\<close> is called.
\<close>

definition init :: "string \<Rightarrow> nat \<Rightarrow> ctor_result \<Rightarrow> world" where
  "init url t0 c =
     connectGateway c
       \<lparr>GATEWAY_WS = url, clientSocket = OPEN, gatewaySocket = None, buffer = [],
        alive = True, sockets = [], timers = [], now = t0, out = []\<rparr>"

subsection \<open>The event loop\<close>

text \<open>
  One event is handled to completion before the next. Before a handler of a socket runs,
  the library has set the \<^verbatim>\<open>readyState\<close> of that socket: \<^verbatim>\<open>OPEN\<close> before \<^verbatim>\<open>open\<close>,
  \<^verbatim>\<open>CLOSING\<close> before \<^verbatim>\<open>error\<close>, \<^verbatim>\<open>CLOSED\<close> before \<^verbatim>\<open>close\<close>. \<open>GatewayMessage\<close>
  carries the bytes of the frame and its flag \<^verbatim>\<open>isBinary\<close>; \<open>ClientMessage\<close> carries the
  bytes of a frame of the browser. \<open>ClientClosing\<close> is the
  arrival of the browser's close frame, which no handler of the bridge observes. A timer
  that fires is removed and runs \<^verbatim>\<open>connectGateway\<close>, with no test of \<^verbatim>\<open>alive\<close>.
\<close>

fun step :: "world \<Rightarrow> event \<Rightarrow> js_error + world" where
  "step w (ClientMessage data) = Inr (onClientMessage ws_send data w)"
| "step w ClientClosing = Inr (w\<lparr>clientSocket := CLOSING\<rparr>)"
| "step w ClientClose = Inr (onClientClose (w\<lparr>clientSocket := CLOSED\<rparr>))"
| "step w (GatewayOpen sid) = onGatewayOpen ws_send (w\<lparr>sockets := (sockets w)[sid := OPEN]\<rparr>)"
| "step w (GatewayMessage sid data isBinary) = Inr (onGatewayMessage data w)"
| "step w (GatewayError sid message) =
     Inr (onGatewayError message (w\<lparr>sockets := (sockets w)[sid := CLOSING]\<rparr>))"
| "step w (GatewayClose sid) = Inr (onGatewayClose (w\<lparr>sockets := (sockets w)[sid := CLOSED]\<rparr>))"
| "step w (TimerFire c) = Inr (connectGateway c (w\<lparr>timers := tl (timers w)\<rparr>))"
| "step w (Tick d) = Inr (w\<lparr>now := now w + d\<rparr>)"

text \<open>
  The events the environment can produce in a state: frames and the close of the browser
  socket while it is not closed; \<^verbatim>\<open>open\<close> only from a connecting socket; frames from an
  upstream socket that completed its handshake; \<^verbatim>\<open>error\<close> and \<^verbatim>\<open>close\<close> from a socket
  that is not closed yet (so \<^verbatim>\<open>close\<close> is the last event of a socket); a timer once it is
  due.
\<close>

fun enabled :: "world \<Rightarrow> event \<Rightarrow> bool" where
  "enabled w (ClientMessage data) = (clientSocket w \<noteq> CLOSED)"
| "enabled w ClientClosing = (clientSocket w = OPEN)"
| "enabled w ClientClose = (clientSocket w \<noteq> CLOSED)"
| "enabled w (GatewayOpen sid) = (sid < length (sockets w) \<and> sockets w ! sid = CONNECTING)"
| "enabled w (GatewayMessage sid data isBinary) =
     (sid < length (sockets w) \<and> (sockets w ! sid = OPEN \<or> sockets w ! sid = CLOSING))"
| "enabled w (GatewayError sid message) = (sid < length (sockets w) \<and> sockets w ! sid \<noteq> CLOSED)"
| "enabled w (GatewayClose sid) = (sid < length (sockets w) \<and> sockets w ! sid \<noteq> CLOSED)"
| "enabled w (TimerFire c) = (timers w \<noteq> [] \<and> hd (timers w) \<le> now w)"
| "enabled w (Tick d) = True"

text \<open>An uncaught exception ends the process: \<open>run\<close> stops at the first \<open>Inl\<close>.\<close>

fun run :: "world \<Rightarrow> event list \<Rightarrow> js_error + world" where
  "run w [] = Inr w"
| "run w (e # es) = (case step w e of Inl x \<Rightarrow> Inl x | Inr w' \<Rightarrow> run w' es)"

fun feasible :: "world \<Rightarrow> event list \<Rightarrow> bool" where
  "feasible w [] = True"
| "feasible w (e # es) =
     (enabled w e \<and> (case step w e of Inl x \<Rightarrow> True | Inr w' \<Rightarrow> feasible w' es))"

subsection \<open>Reading traces\<close>

text \<open>The payloads handed to \<^verbatim>\<open>gatewaySocket.send\<close>, in order.\<close>

fun to_gateway :: "effect \<Rightarrow> payload list" where
  "to_gateway (GatewaySend g p) = [p]"
| "to_gateway (ClientSend p) = []"
| "to_gateway (SetTimeout d) = []"

definition upstream :: "effect list \<Rightarrow> payload list" where
  "upstream tr = concat (map to_gateway tr)"

text \<open>The upstream frames handed on to \<^verbatim>\<open>clientSocket.send\<close>, in order.\<close>

fun to_client_raw :: "effect \<Rightarrow> string list" where
  "to_client_raw (ClientSend (Raw d)) = [d]"
| "to_client_raw (ClientSend (Stringified obj)) = []"
| "to_client_raw (GatewaySend g p) = []"
| "to_client_raw (SetTimeout d) = []"

definition relayed :: "effect list \<Rightarrow> string list" where
  "relayed tr = concat (map to_client_raw tr)"

text \<open>The objects serialised for the client, in order.\<close>

fun to_client_json :: "effect \<Rightarrow> json_object list" where
  "to_client_json (ClientSend (Stringified obj)) = [obj]"
| "to_client_json (ClientSend (Raw d)) = []"
| "to_client_json (GatewaySend g p) = []"
| "to_client_json (SetTimeout d) = []"

definition notifications :: "effect list \<Rightarrow> json_object list" where
  "notifications tr = concat (map to_client_json tr)"

text \<open>The delays of the calls of \<^verbatim>\<open>setTimeout\<close>, in order.\<close>

fun set_timeout :: "effect \<Rightarrow> nat list" where
  "set_timeout (SetTimeout d) = [d]"
| "set_timeout (ClientSend p) = []"
| "set_timeout (GatewaySend g p) = []"

definition scheduled :: "effect list \<Rightarrow> nat list" where
  "scheduled tr = concat (map set_timeout tr)"

text \<open>The frames of the browser, the frames of the gateway, the timers fired, the closes.\<close>

fun from_client :: "event \<Rightarrow> string list" where
  "from_client (ClientMessage d) = [d]"
| "from_client e = []"

definition client_frames :: "event list \<Rightarrow> string list" where
  "client_frames es = concat (map from_client es)"

fun from_gateway :: "event \<Rightarrow> string list" where
  "from_gateway (GatewayMessage sid d b) = [d]"
| "from_gateway e = []"

definition gateway_frames :: "event list \<Rightarrow> string list" where
  "gateway_frames es = concat (map from_gateway es)"

text \<open>
  The frames of the gateway as they arrived, and the frames handed on to the browser as
  \<^verbatim>\<open>send\<close> puts them on the wire: bytes and frame type.
\<close>

fun arrived :: "event \<Rightarrow> (string \<times> opcode) list" where
  "arrived (GatewayMessage sid d b) = [(d, received_opcode b)]"
| "arrived e = []"

definition gateway_arrivals :: "event list \<Rightarrow> (string \<times> opcode) list" where
  "gateway_arrivals es = concat (map arrived es)"

fun delivered :: "effect \<Rightarrow> (string \<times> opcode) list" where
  "delivered (ClientSend (Raw d)) = [(d, ws_opcode (Raw d))]"
| "delivered (ClientSend (Stringified obj)) = []"
| "delivered (GatewaySend g p) = []"
| "delivered (SetTimeout n) = []"

definition client_deliveries :: "effect list \<Rightarrow> (string \<times> opcode) list" where
  "client_deliveries tr = concat (map delivered tr)"

fun timer_fire :: "event \<Rightarrow> ctor_result list" where
  "timer_fire (TimerFire c) = [c]"
| "timer_fire e = []"

definition fired :: "event list \<Rightarrow> ctor_result list" where
  "fired es = concat (map timer_fire es)"

fun gateway_close :: "event \<Rightarrow> nat list" where
  "gateway_close (GatewayClose sid) = [sid]"
| "gateway_close e = []"

definition closes :: "event list \<Rightarrow> nat list" where
  "closes es = concat (map gateway_close es)"

fun gateway_open :: "event \<Rightarrow> nat list" where
  "gateway_open (GatewayOpen sid) = [sid]"
| "gateway_open e = []"

definition opens :: "event list \<Rightarrow> nat list" where
  "opens es = concat (map gateway_open es)"

text \<open>The test of lines 108 and 144 on the current upstream socket.\<close>

definition upstream_open :: "world \<Rightarrow> bool" where
  "upstream_open w = (case gatewaySocket w of None \<Rightarrow> False | Some g \<Rightarrow> sockets w ! g = OPEN)"

text \<open>The upstream sockets that are not closed: the connections and attempts in flight.\<close>

definition in_flight :: "world \<Rightarrow> ready_state list" where
  "in_flight w = filter (\<lambda>s. s \<noteq> CLOSED) (sockets w)"

text \<open>The message that \<^verbatim>\<open>sendStatus\<close> builds at clock \<open>t\<close>.\<close>

definition notification :: "string \<Rightarrow> string \<Rightarrow> nat \<Rightarrow> json_object" where
  "notification state message t =
     [(''type'', JString ''__index_status''), (''state'', JString state),
      (''message'', JString message), (''ts'', JNumber t)]"

text \<open>
  The shape of a status notification: the four fields \<^verbatim>\<open>type\<close>, \<^verbatim>\<open>state\<close>,
  \<^verbatim>\<open>message\<close>, \<^verbatim>\<open>ts\<close> and no other, the marker as type, one of the three states, a
  string as message and a number not after the clock \<open>t\<close> as timestamp.
\<close>

definition is_status :: "nat \<Rightarrow> json_object \<Rightarrow> bool" where
  "is_status t obj =
     (map fst obj = [''type'', ''state'', ''message'', ''ts''] \<and>
      (case map snd obj of
         [JString ty, JString st, JString msg, JNumber ts] \<Rightarrow>
           ty = ''__index_status'' \<and>
           (st = ''connected'' \<or> st = ''disconnected'' \<or> st = ''error'') \<and> ts \<le> t
       | _ \<Rightarrow> False))"

text \<open>Every object serialised for the browser so far has that shape.\<close>

definition statuses_ok :: "world \<Rightarrow> bool" where
  "statuses_ok w = (\<forall>obj \<in> set (notifications (out w)). is_status (now w) obj)"

text \<open>
  A failed connect attempt as the library reports it (connection refused, handshake
  timeout, unexpected response): the \<^verbatim>\<open>error\<close> event of the socket, then its
  \<^verbatim>\<open>close\<close> event.
\<close>

definition connect_failure :: "nat \<Rightarrow> string \<Rightarrow> event list" where
  "connect_failure sid message = [GatewayError sid message, GatewayClose sid]"

subsection \<open>An invariant of the reachable states\<close>

text \<open>
  The variable \<open>gatewaySocket\<close> always refers to the socket constructed last; every
  earlier socket is closed; a timer is pending only while every socket is closed, and
  never two at once; \<open>alive\<close> is false exactly when the browser socket is closed; and
  while the current upstream socket is open the buffer is empty.
\<close>

definition inv :: "world \<Rightarrow> bool" where
  "inv w \<longleftrightarrow>
     gatewaySocket w = (if sockets w = [] then None else Some (length (sockets w) - 1)) \<and>
     (\<forall>i. Suc i < length (sockets w) \<longrightarrow> sockets w ! i = CLOSED) \<and>
     (timers w \<noteq> [] \<longrightarrow> length (timers w) = 1 \<and> (\<forall>i < length (sockets w). sockets w ! i = CLOSED)) \<and>
     (alive w \<longleftrightarrow> clientSocket w \<noteq> CLOSED) \<and>
     (\<forall>g. gatewaySocket w = Some g \<and> sockets w ! g = OPEN \<longrightarrow> buffer w = [])"

lemma inv_init: "inv (init url t0 c)"
  by (cases c) (auto simp: inv_def init_def connectGateway_def sendStatus_def)

lemma only_last_live:
  assumes "inv w" and "sid < length (sockets w)" and "sockets w ! sid \<noteq> CLOSED"
  shows "gatewaySocket w = Some sid \<and> Suc sid = length (sockets w) \<and> timers w = []"
proof -
  from assms have "\<not> Suc sid < length (sockets w)"
    by (auto simp: inv_def)
  with assms(2) have len: "Suc sid = length (sockets w)" by simp
  from assms(1) len have "gatewaySocket w = Some sid"
    by (auto simp: inv_def)
  moreover from assms have "timers w = []"
    by (auto simp: inv_def)
  ultimately show ?thesis using len by simp
qed

text \<open>With the library's \<^verbatim>\<open>send\<close>, an open socket takes the whole buffer in order.\<close>

lemma gatewaySend_ws:
  "gatewaySend ws_send g m w = w\<lparr>out := out w @ [GatewaySend g m]\<rparr>"
  by (simp add: gatewaySend_def ws_send_def)

lemma flush_open:
  "gatewaySocket w = Some g \<Longrightarrow> sockets w ! g = OPEN \<Longrightarrow>
   forEach_flush ws_send ms w = Inr (w\<lparr>out := out w @ map (GatewaySend g) ms\<rparr>)"
  by (induction ms arbitrary: w) (simp_all add: gatewaySend_ws)

lemma inv_out [simp]: "inv (w\<lparr>out := x\<rparr>) = inv w"
  by (simp add: inv_def)

lemma inv_now [simp]: "inv (w\<lparr>now := x\<rparr>) = inv w"
  by (simp add: inv_def)

lemma inv_sendStatus [simp]: "inv (sendStatus s m w) = inv w"
  by (simp add: sendStatus_def)

lemma sendStatus_fields [simp]:
  "gatewaySocket (sendStatus s m w) = gatewaySocket w"
  "sockets (sendStatus s m w) = sockets w"
  "timers (sendStatus s m w) = timers w"
  "buffer (sendStatus s m w) = buffer w"
  "alive (sendStatus s m w) = alive w"
  "clientSocket (sendStatus s m w) = clientSocket w"
  "now (sendStatus s m w) = now w"
  "GATEWAY_WS (sendStatus s m w) = GATEWAY_WS w"
  by (simp_all add: sendStatus_def)

lemma step_open:
  assumes "inv w" and "enabled w (GatewayOpen sid)"
  shows "step w (GatewayOpen sid) =
           Inr ((sendStatus ''connected'' (''Gateway live at '' @ GATEWAY_WS w)
                  (w\<lparr>sockets := (sockets w)[sid := OPEN]\<rparr>))
                \<lparr>out := out (sendStatus ''connected'' (''Gateway live at '' @ GATEWAY_WS w) w)
                         @ map (GatewaySend sid) (buffer w),
                  buffer := []\<rparr>)"
proof -
  from assms have sid: "sid < length (sockets w)" and "sockets w ! sid \<noteq> CLOSED"
    by simp_all
  with assms(1) have g: "gatewaySocket w = Some sid"
    using only_last_live by blast
  let ?w1 = "sendStatus ''connected'' (''Gateway live at '' @ GATEWAY_WS w)
               (w\<lparr>sockets := (sockets w)[sid := OPEN]\<rparr>)"
  have "gatewaySocket ?w1 = Some sid" "sockets ?w1 ! sid = OPEN"
    using g sid by simp_all
  then have "forEach_flush ws_send (buffer ?w1) ?w1 =
               Inr (?w1\<lparr>out := out ?w1 @ map (GatewaySend sid) (buffer ?w1)\<rparr>)"
    by (rule flush_open)
  then show ?thesis
    by (simp add: onGatewayOpen_def Let_def) (simp add: sendStatus_def)
qed

text \<open>No handler throws in a state that satisfies the invariant, and the invariant is kept.\<close>

lemma step_inv:
  assumes "inv w" and "enabled w e"
  shows "\<exists>w'. step w e = Inr w' \<and> inv w'"
proof (cases e)
  case (ClientMessage d)
  with assms show ?thesis
    by (auto simp: inv_def onClientMessage_def gatewaySend_ws split: option.splits)
next
  case ClientClosing
  with assms show ?thesis by (auto simp: inv_def)
next
  case ClientClose
  with assms show ?thesis
    by (auto simp: inv_def onClientClose_def ws_close_def nth_list_update split: option.splits)
next
  case (GatewayOpen sid)
  with assms have "gatewaySocket w = Some sid \<and> Suc sid = length (sockets w) \<and> timers w = []"
    using only_last_live[of w sid] by simp
  with assms GatewayOpen show ?thesis
    by (auto simp: step_open simp del: step.simps) (auto simp: inv_def nth_list_update)
next
  case (GatewayMessage sid d b)
  with assms show ?thesis by (auto simp: onGatewayMessage_def)
next
  case (GatewayError sid m)
  with assms have "gatewaySocket w = Some sid \<and> Suc sid = length (sockets w) \<and> timers w = []"
    using only_last_live[of w sid] by simp
  with assms GatewayError show ?thesis
    by (auto simp: onGatewayError_def) (auto simp: inv_def nth_list_update)
next
  case (GatewayClose sid)
  with assms have "gatewaySocket w = Some sid \<and> Suc sid = length (sockets w) \<and> timers w = []"
    using only_last_live[of w sid] by simp
  with assms GatewayClose show ?thesis
    by (auto simp: onGatewayClose_def Let_def) (auto simp: inv_def nth_list_update less_Suc_eq)
next
  case (TimerFire c)
  with assms obtain t where "timers w = [t]"
    by (cases "timers w") (auto simp: inv_def)
  with assms TimerFire show ?thesis
    by (cases c) (auto simp: connectGateway_def inv_def nth_append less_Suc_eq)
next
  case (Tick d)
  with assms show ?thesis by simp
qed

subsection \<open>Traces and runs\<close>

lemma upstream_append [simp]: "upstream (xs @ ys) = upstream xs @ upstream ys"
  by (simp add: upstream_def)

lemma relayed_append [simp]: "relayed (xs @ ys) = relayed xs @ relayed ys"
  by (simp add: relayed_def)

lemma notifications_append [simp]: "notifications (xs @ ys) = notifications xs @ notifications ys"
  by (simp add: notifications_def)

lemma scheduled_append [simp]: "scheduled (xs @ ys) = scheduled xs @ scheduled ys"
  by (simp add: scheduled_def)

lemma upstream_single [simp]:
  "upstream [] = []"
  "upstream [GatewaySend g p] = [p]"
  "upstream [ClientSend p] = []"
  "upstream [SetTimeout n] = []"
  by (simp_all add: upstream_def)

lemma upstream_flush [simp]: "upstream (map (GatewaySend g) ps) = ps"
  by (induction ps) (simp_all add: upstream_def)

lemma relayed_single [simp]:
  "relayed [] = []"
  "relayed [GatewaySend g p] = []"
  "relayed [ClientSend (Raw d)] = [d]"
  "relayed [ClientSend (Stringified obj)] = []"
  "relayed [SetTimeout n] = []"
  "relayed (map (GatewaySend g) ps) = []"
  by (simp_all add: relayed_def)

lemma notifications_single [simp]:
  "notifications [] = []"
  "notifications [GatewaySend g p] = []"
  "notifications [ClientSend (Raw d)] = []"
  "notifications [ClientSend (Stringified obj)] = [obj]"
  "notifications [SetTimeout n] = []"
  "notifications (map (GatewaySend g) ps) = []"
  by (simp_all add: notifications_def)

lemma scheduled_single [simp]:
  "scheduled [] = []"
  "scheduled [GatewaySend g p] = []"
  "scheduled [ClientSend p] = []"
  "scheduled [SetTimeout n] = [n]"
  "scheduled (map (GatewaySend g) ps) = []"
  by (simp_all add: scheduled_def)

lemma sendStatus_out:
  "out (sendStatus s m w) =
     out w @ (if clientSocket w = OPEN then [ClientSend (Stringified (notification s m (now w)))] else [])"
  by (simp add: sendStatus_def notification_def)

lemma sendStatus_traces [simp]:
  "upstream (out (sendStatus s m w)) = upstream (out w)"
  "relayed (out (sendStatus s m w)) = relayed (out w)"
  "scheduled (out (sendStatus s m w)) = scheduled (out w)"
  by (simp_all add: sendStatus_out)

lemma run_append:
  "run w (es @ fs) = (case run w es of Inl x \<Rightarrow> Inl x | Inr w' \<Rightarrow> run w' fs)"
  by (induction es arbitrary: w) (auto split: sum.splits)

lemma feasible_append:
  "feasible w (es @ fs) =
     (feasible w es \<and> (case run w es of Inl x \<Rightarrow> True | Inr w' \<Rightarrow> feasible w' fs))"
  by (induction es arbitrary: w) (auto split: sum.splits)

lemma run_inv:
  "inv w \<Longrightarrow> feasible w es \<Longrightarrow> \<exists>w'. run w es = Inr w' \<and> inv w'"
proof (induction es arbitrary: w)
  case Nil
  then show ?case by simp
next
  case (Cons e es)
  then obtain w1 where w1: "step w e = Inr w1" "inv w1"
    using step_inv[of w e] by auto
  with Cons.prems have "feasible w1 es" by simp
  with Cons.IH w1 show ?case by simp
qed

text \<open>What is still buffered and what was handed upstream make up what the browser sent.\<close>

lemma step_upstream:
  assumes "inv w" and "enabled w e" and "step w e = Inr w'"
  shows "upstream (out w') @ buffer w' = upstream (out w) @ buffer w @ map Raw (from_client e)"
proof (cases e)
  case (ClientMessage d)
  with assms show ?thesis
    by (auto simp: inv_def onClientMessage_def gatewaySend_ws split: option.splits if_splits)
next
  case (GatewayOpen sid)
  with assms show ?thesis
    by (auto simp: step_open simp del: step.simps)
next
  case (GatewayClose sid)
  with assms show ?thesis by (auto simp: onGatewayClose_def Let_def)
next
  case (TimerFire c)
  with assms show ?thesis by (cases c) (auto simp: connectGateway_def)
qed (use assms in \<open>auto simp: onClientClose_def Let_def onGatewayMessage_def onGatewayError_def split: option.splits\<close>)

lemma run_upstream:
  "inv w \<Longrightarrow> feasible w es \<Longrightarrow> run w es = Inr w' \<Longrightarrow>
   upstream (out w') @ buffer w' = upstream (out w) @ buffer w @ map Raw (client_frames es)"
proof (induction es arbitrary: w)
  case Nil
  then show ?case by (simp add: client_frames_def)
next
  case (Cons e es)
  then obtain w1 where w1: "step w e = Inr w1" "inv w1"
    using step_inv[of w e] by auto
  with Cons.prems have "feasible w1 es" "run w1 es = Inr w'" "enabled w e" by simp_all
  with Cons.IH w1 step_upstream[OF Cons.prems(1) _ w1(1)] show ?case
    by (simp add: client_frames_def)
qed

subsection \<open>From the browser to the upstream\<close>

lemmas handler_defs =
  init_def connectGateway_def sendStatus_def onGatewayOpen_def onGatewayMessage_def
  onGatewayClose_def onGatewayError_def onClientMessage_def onClientClose_def
  gatewaySend_def ws_send_def ws_close_def RECONNECT_DELAY_def closed_message_def Let_def

text \<open>A property of states that every step keeps holds along every run.\<close>

lemma run_preserves:
  assumes keep: "\<And>w e w'. inv w \<Longrightarrow> enabled w e \<Longrightarrow> step w e = Inr w' \<Longrightarrow> Q w \<Longrightarrow> Q w'"
  shows "inv w \<Longrightarrow> feasible w es \<Longrightarrow> run w es = Inr w' \<Longrightarrow> Q w \<Longrightarrow> Q w'"
proof (induction es arbitrary: w)
  case Nil
  then show ?case by simp
next
  case (Cons e es)
  then obtain w1 where w1: "step w e = Inr w1" "inv w1"
    using step_inv[of w e] by auto
  with Cons.prems have "feasible w1 es" "run w1 es = Inr w'" "enabled w e" by simp_all
  moreover have "Q w1"
    using keep[OF Cons.prems(1) \<open>enabled w e\<close> w1(1) Cons.prems(4)] .
  ultimately show ?case using Cons.IH w1(2) by blast
qed

lemma step_url:
  assumes "inv w" and "enabled w e" and "step w e = Inr w'"
  shows "GATEWAY_WS w' = GATEWAY_WS w"
proof (cases e)
  case (GatewayOpen sid)
  with assms show ?thesis by (auto simp: step_open simp del: step.simps)
next
  case (TimerFire c)
  with assms show ?thesis by (cases c) (auto simp: connectGateway_def)
qed (use assms in \<open>auto simp: onClientMessage_def gatewaySend_ws onClientClose_def Let_def
       onGatewayMessage_def onGatewayError_def onGatewayClose_def split: option.splits\<close>)

lemma run_url:
  "inv w \<Longrightarrow> feasible w es \<Longrightarrow> run w es = Inr w' \<Longrightarrow> GATEWAY_WS w' = GATEWAY_WS w"
proof -
  assume a: "inv w" "feasible w es" "run w es = Inr w'"
  have "GATEWAY_WS w' = GATEWAY_WS w"
  proof (rule run_preserves[where Q = "\<lambda>v. GATEWAY_WS v = GATEWAY_WS w", OF _ a])
    show "GATEWAY_WS w = GATEWAY_WS w" by (rule refl)
  next
    fix v e v'
    assume "inv v" "enabled v e" "step v e = Inr v'" "GATEWAY_WS v = GATEWAY_WS w"
    then show "GATEWAY_WS v' = GATEWAY_WS w" using step_url[of v e v'] by simp
  qed
  then show ?thesis .
qed

lemma push_when_not_open:
  "\<not> upstream_open w \<Longrightarrow> step w (ClientMessage d) = Inr (w\<lparr>buffer := buffer w @ [Raw d]\<rparr>)"
  by (auto simp: upstream_open_def onClientMessage_def split: option.splits)

text \<open>
  C1. In every run of the bridge, the payloads handed to the upstream followed by the
  buffer are exactly the frames of the browser, in the order of their arrival, each once.
  A frame that arrives while the current upstream socket is not open is appended to the
  buffer and nothing is sent. When an upstream socket opens, the whole buffer is handed to
  that socket, in order, after which the buffer is empty.
\<close>

theorem buffered_frames_flushed_in_order:
  assumes "feasible (init url t0 c) es"
  shows "\<exists>w. run (init url t0 c) es = Inr w \<and>
           upstream (out w) @ buffer w = map Raw (client_frames es) \<and>
           (\<forall>d. \<not> upstream_open w \<longrightarrow>
                step w (ClientMessage d) = Inr (w\<lparr>buffer := buffer w @ [Raw d]\<rparr>)) \<and>
           (\<forall>sid. enabled w (GatewayOpen sid) \<longrightarrow>
                (\<exists>w'. step w (GatewayOpen sid) = Inr w' \<and>
                   out w' = out (sendStatus ''connected'' (''Gateway live at '' @ url) w)
                              @ map (GatewaySend sid) (buffer w) \<and>
                   upstream (out w') = map Raw (client_frames es) \<and>
                   buffer w' = [] \<and> upstream_open w'))"
proof -
  let ?w0 = "init url t0 c"
  have url: "GATEWAY_WS ?w0 = url"
    by (cases c) (simp_all add: init_def connectGateway_def)
  from assms obtain w where w: "run ?w0 es = Inr w" "inv w"
    using run_inv[OF inv_init] by blast
  have acc: "upstream (out w) @ buffer w = map Raw (client_frames es)"
    using run_upstream[OF inv_init assms w(1)]
    by (cases c) (simp_all add: init_def connectGateway_def sendStatus_out)
  have keep: "GATEWAY_WS w = url"
    using run_url[OF inv_init assms w(1)] url by simp
  have "\<exists>w'. step w (GatewayOpen sid) = Inr w' \<and>
           out w' = out (sendStatus ''connected'' (''Gateway live at '' @ url) w)
                      @ map (GatewaySend sid) (buffer w) \<and>
           upstream (out w') = map Raw (client_frames es) \<and>
           buffer w' = [] \<and> upstream_open w'"
    if en: "enabled w (GatewayOpen sid)" for sid
  proof -
    from en w(2) have g: "gatewaySocket w = Some sid" "sid < length (sockets w)"
      using only_last_live[of w sid] by simp_all
    show ?thesis
      using step_open[OF w(2) en] g acc keep
      by (simp add: upstream_open_def del: step.simps)
  qed
  with w acc show ?thesis
    using push_when_not_open by blast
qed

theorem buffered_frames_flushed_in_order_witness:
  "feasible (init ''ws://127.0.0.1:18789'' 0 Created) [ClientMessage ''a'', ClientMessage ''b''] \<and>
   (\<exists>w. run (init ''ws://127.0.0.1:18789'' 0 Created) [ClientMessage ''a'', ClientMessage ''b''] = Inr w \<and>
        upstream (out w) = [] \<and> buffer w = [Raw ''a'', Raw ''b''] \<and>
        (\<exists>w'. step w (GatewayOpen 0) = Inr w' \<and>
              upstream (out w') = [Raw ''a'', Raw ''b''] \<and> buffer w' = []))"
proof -
  let ?w0 = "init ''ws://127.0.0.1:18789'' 0 Created"
  let ?es = "[ClientMessage ''a'', ClientMessage ''b'']"
  have f: "feasible ?w0 ?es"
    by (simp add: handler_defs)
  from buffered_frames_flushed_in_order[OF f] obtain w where
    r: "run ?w0 ?es = Inr w" and
    acc: "upstream (out w) @ buffer w = map Raw (client_frames ?es)" and
    op: "\<forall>sid. enabled w (GatewayOpen sid) \<longrightarrow>
           (\<exists>w'. step w (GatewayOpen sid) = Inr w' \<and>
              out w' = out (sendStatus ''connected'' (''Gateway live at '' @ ''ws://127.0.0.1:18789'') w)
                         @ map (GatewaySend sid) (buffer w) \<and>
              upstream (out w') = map Raw (client_frames ?es) \<and>
              buffer w' = [] \<and> upstream_open w')"
    by blast
  from r have b: "buffer w = [Raw ''a'', Raw ''b'']" and en: "enabled w (GatewayOpen 0)"
    by (auto simp: handler_defs)
  from acc b have u: "upstream (out w) = []"
    by (simp add: client_frames_def)
  from op en obtain w' where "step w (GatewayOpen 0) = Inr w'"
    "upstream (out w') = map Raw (client_frames ?es)" "buffer w' = []"
    by blast
  with f r b u show ?thesis
    by (simp add: client_frames_def)
qed

subsection \<open>From the upstream to the browser\<close>

lemma step_relayed:
  assumes "inv w" and "enabled w e" and "step w e = Inr w'"
  shows "relayed (out w') = relayed (out w) @ (if clientSocket w = OPEN then from_gateway e else [])"
proof (cases e)
  case (GatewayOpen sid)
  with assms show ?thesis by (auto simp: step_open simp del: step.simps)
next
  case (TimerFire c)
  with assms show ?thesis by (cases c) (auto simp: connectGateway_def)
qed (use assms in \<open>auto simp: onClientMessage_def gatewaySend_ws onClientClose_def Let_def
       onGatewayMessage_def onGatewayError_def onGatewayClose_def split: option.splits\<close>)

lemma step_client_open:
  assumes "inv w" and "enabled w e" and "step w e = Inr w'" and "clientSocket w' = OPEN"
  shows "clientSocket w = OPEN"
proof (cases e)
  case (GatewayOpen sid)
  with assms show ?thesis by (auto simp: step_open simp del: step.simps)
next
  case (TimerFire c)
  with assms show ?thesis by (cases c) (auto simp: connectGateway_def)
qed (use assms in \<open>auto simp: onClientMessage_def gatewaySend_ws onClientClose_def Let_def
       onGatewayMessage_def onGatewayError_def onGatewayClose_def split: option.splits if_splits\<close>)

lemma run_relayed:
  "inv w \<Longrightarrow> feasible w es \<Longrightarrow> run w es = Inr w' \<Longrightarrow> clientSocket w' = OPEN \<Longrightarrow>
   clientSocket w = OPEN \<and> relayed (out w') = relayed (out w) @ gateway_frames es"
proof (induction es arbitrary: w)
  case Nil
  then show ?case by (simp add: gateway_frames_def)
next
  case (Cons e es)
  then obtain w1 where w1: "step w e = Inr w1" "inv w1"
    using step_inv[of w e] by auto
  with Cons.prems have rest: "feasible w1 es" "run w1 es = Inr w'" and en: "enabled w e"
    by simp_all
  from Cons.IH[OF w1(2) rest Cons.prems(4)]
  have c1: "clientSocket w1 = OPEN" and r: "relayed (out w') = relayed (out w1) @ gateway_frames es"
    by simp_all
  from step_client_open[OF Cons.prems(1) en w1(1) c1] have c: "clientSocket w = OPEN" .
  with step_relayed[OF Cons.prems(1) en w1(1)] r show ?case
    by (simp add: gateway_frames_def)
qed

lemma init_traces [simp]:
  "upstream (out (init url t0 c)) = []"
  "relayed (out (init url t0 c)) = []"
  "scheduled (out (init url t0 c)) = []"
  "buffer (init url t0 c) = []"
  "clientSocket (init url t0 c) = OPEN"
  "alive (init url t0 c)"
  "timers (init url t0 c) = []"
  "now (init url t0 c) = t0"
  "GATEWAY_WS (init url t0 c) = url"
  by (cases c; simp add: init_def connectGateway_def sendStatus_out)+

lemma client_deliveries_relayed:
  "client_deliveries tr = map (\<lambda>d. (d, BinaryFrame)) (relayed tr)"
proof (induction tr)
  case Nil
  then show ?case by (simp add: client_deliveries_def relayed_def)
next
  case (Cons e tr)
  then show ?case
    by (cases e rule: delivered.cases) (simp_all add: client_deliveries_def relayed_def)
qed

lemma gateway_arrivals_frames: "map fst (gateway_arrivals es) = gateway_frames es"
proof (induction es)
  case Nil
  then show ?case by (simp add: gateway_arrivals_def gateway_frames_def)
next
  case (Cons e es)
  then show ?case
    by (cases e) (simp_all add: gateway_arrivals_def gateway_frames_def)
qed

text \<open>
  What holds of the relay in every run: while the browser socket is open, a frame from the
  upstream is handed to \<^verbatim>\<open>clientSocket.send\<close> at once, its bytes unchanged, and the bytes
  handed on so far are those that arrived, in the order of arrival; when the browser
  socket is not open, a frame from the upstream changes nothing. Every frame handed on
  goes out as a binary frame, whatever it was when it arrived.
\<close>

lemma relayed_bytes_in_order:
  assumes "feasible (init url t0 c) es"
  shows "\<exists>w. run (init url t0 c) es = Inr w \<and>
           (clientSocket w = OPEN \<longrightarrow>
              relayed (out w) = gateway_frames es \<and>
              client_deliveries (out w) = map (\<lambda>(d, k). (d, BinaryFrame)) (gateway_arrivals es)) \<and>
           (\<forall>sid d b. clientSocket w = OPEN \<longrightarrow>
                step w (GatewayMessage sid d b) = Inr (w\<lparr>out := out w @ [ClientSend (Raw d)]\<rparr>)) \<and>
           (\<forall>sid d b. clientSocket w \<noteq> OPEN \<longrightarrow> step w (GatewayMessage sid d b) = Inr w)"
proof -
  from assms obtain w where w: "run (init url t0 c) es = Inr w"
    using run_inv[OF inv_init] by blast
  have r: "relayed (out w) = gateway_frames es" if "clientSocket w = OPEN"
    using run_relayed[OF inv_init assms w that] by simp
  have "client_deliveries (out w) = map (\<lambda>(d, k). (d, BinaryFrame)) (gateway_arrivals es)"
    if "clientSocket w = OPEN"
  proof -
    have "map (\<lambda>d. (d, BinaryFrame)) (map fst (gateway_arrivals es)) =
          map (\<lambda>(d, k). (d, BinaryFrame)) (gateway_arrivals es)"
      by (simp add: case_prod_unfold)
    with r[OF that] show ?thesis
      by (simp add: client_deliveries_relayed gateway_arrivals_frames)
  qed
  with w r show ?thesis
    by (simp add: onGatewayMessage_def)
qed

text \<open>
  C5 fails on the code. The gateway sends a text frame holding \<^verbatim>\<open>{}\<close> while both
  sockets are open. The listener of lines 114 to 117 drops \<^verbatim>\<open>isBinary\<close> and hands the
  \<^verbatim>\<open>Buffer\<close> to \<^verbatim>\<open>clientSocket.send\<close> with no options, so the frame that reaches the
  browser has the same bytes and is a binary frame: it is not the frame that arrived.
\<close>

theorem text_frame_relayed_as_binary:
  "feasible (init ''ws://127.0.0.1:18789'' 0 Created) [GatewayOpen 0, GatewayMessage 0 ''{}'' False] \<and>
   gateway_arrivals [GatewayOpen 0, GatewayMessage 0 ''{}'' False] = [(''{}'', TextFrame)] \<and>
   map_sum id (\<lambda>w. client_deliveries (out w))
     (run (init ''ws://127.0.0.1:18789'' 0 Created) [GatewayOpen 0, GatewayMessage 0 ''{}'' False]) =
     Inr [(''{}'', BinaryFrame)]"
  by (simp add: handler_defs gateway_arrivals_def client_deliveries_def received_opcode_def)

subsection \<open>What reaches the upstream, what reaches the browser\<close>

lemma upstream_mem: "GatewaySend g p \<in> set tr \<Longrightarrow> p \<in> set (upstream tr)"
  by (induction tr) (auto simp: upstream_def)

lemma client_frames_mem: "d \<in> set (client_frames es) \<Longrightarrow> ClientMessage d \<in> set es"
proof (induction es)
  case Nil
  then show ?case by (simp add: client_frames_def)
next
  case (Cons e es)
  then show ?case by (cases e) (auto simp: client_frames_def)
qed

text \<open>
  C4. In every run of the bridge, every payload handed to an upstream socket is a frame
  that the browser sent, handed on as it came; no object serialised by the bridge (the
  status notifications are the only ones) is ever handed to an upstream socket, nor held
  in the buffer from which the upstream is fed.
\<close>

theorem status_never_sent_upstream:
  assumes "feasible (init url t0 c) es"
  shows "\<exists>w. run (init url t0 c) es = Inr w \<and>
           (\<forall>g p. GatewaySend g p \<in> set (out w) \<longrightarrow> (\<exists>d. p = Raw d \<and> ClientMessage d \<in> set es)) \<and>
           (\<forall>g obj. GatewaySend g (Stringified obj) \<notin> set (out w)) \<and>
           (\<forall>obj. Stringified obj \<notin> set (buffer w))"
proof -
  from assms obtain w where w: "run (init url t0 c) es = Inr w"
    using run_inv[OF inv_init] by blast
  have acc: "upstream (out w) @ buffer w = map Raw (client_frames es)"
    using run_upstream[OF inv_init assms w] by simp
  have raw: "\<exists>d. p = Raw d \<and> ClientMessage d \<in> set es"
    if "p \<in> set (upstream (out w) @ buffer w)" for p
    using that client_frames_mem unfolding acc by auto
  have a: "\<exists>d. p = Raw d \<and> ClientMessage d \<in> set es" if "GatewaySend g p \<in> set (out w)" for g p
    using raw[of p] upstream_mem[OF that] by simp
  have b: "GatewaySend g (Stringified obj) \<notin> set (out w)" for g obj
    using a[of g "Stringified obj"] by auto
  have d: "Stringified obj \<notin> set (buffer w)" for obj
    using raw[of "Stringified obj"] by auto
  from w a b d show ?thesis by blast
qed

theorem status_never_sent_upstream_witness:
  "feasible (init ''ws://127.0.0.1:18789'' 0 Created)
     [ClientMessage ''a'', GatewayOpen 0, GatewayClose 0, ClientMessage ''b''] \<and>
   (\<exists>w. run (init ''ws://127.0.0.1:18789'' 0 Created)
           [ClientMessage ''a'', GatewayOpen 0, GatewayClose 0, ClientMessage ''b''] = Inr w \<and>
        length (notifications (out w)) = 2 \<and>
        GatewaySend 0 (Raw ''a'') \<in> set (out w) \<and>
        (\<forall>g obj. GatewaySend g (Stringified obj) \<notin> set (out w)))"
proof -
  let ?w0 = "init ''ws://127.0.0.1:18789'' 0 Created"
  let ?es = "[ClientMessage ''a'', GatewayOpen 0, GatewayClose 0, ClientMessage ''b'']"
  have f: "feasible ?w0 ?es"
    by (simp add: handler_defs)
  from status_never_sent_upstream[OF f] obtain w where
    r: "run ?w0 ?es = Inr w" and
    n: "\<forall>g obj. GatewaySend g (Stringified obj) \<notin> set (out w)"
    by blast
  from r have "length (notifications (out w)) = 2" "GatewaySend 0 (Raw ''a'') \<in> set (out w)"
    by (auto simp: handler_defs notifications_def)
  with f r n show ?thesis by blast
qed

lemma is_status_iff:
  "is_status t obj \<longleftrightarrow>
     (\<exists>st msg ts. obj = notification st msg ts \<and>
        (st = ''connected'' \<or> st = ''disconnected'' \<or> st = ''error'') \<and> ts \<le> t)"
proof
  assume a: "is_status t obj"
  then have "map fst obj = [''type'', ''state'', ''message'', ''ts'']"
    by (simp add: is_status_def)
  then obtain v1 v2 v3 v4 where
    obj: "obj = [(''type'', v1), (''state'', v2), (''message'', v3), (''ts'', v4)]"
    by (auto simp: map_eq_Cons_conv)
  with a show "\<exists>st msg ts. obj = notification st msg ts \<and>
        (st = ''connected'' \<or> st = ''disconnected'' \<or> st = ''error'') \<and> ts \<le> t"
    by (cases v1; cases v2; cases v3; cases v4) (simp_all add: is_status_def notification_def)
next
  assume "\<exists>st msg ts. obj = notification st msg ts \<and>
        (st = ''connected'' \<or> st = ''disconnected'' \<or> st = ''error'') \<and> ts \<le> t"
  then show "is_status t obj"
    by (auto simp: is_status_def notification_def)
qed

lemma is_status_mono: "is_status t obj \<Longrightarrow> t \<le> t' \<Longrightarrow> is_status t' obj"
proof -
  assume a: "is_status t obj" and le: "t \<le> t'"
  from a obtain st msg ts where
    "obj = notification st msg ts" "st = ''connected'' \<or> st = ''disconnected'' \<or> st = ''error''"
    "ts \<le> t"
    unfolding is_status_iff by blast
  with le show ?thesis
    unfolding is_status_iff by (intro exI[of _ st] exI[of _ msg] exI[of _ ts]) simp
qed

lemma is_status_notification:
  "s = ''connected'' \<or> s = ''disconnected'' \<or> s = ''error'' \<Longrightarrow> t \<le> t' \<Longrightarrow>
   is_status t' (notification s m t)"
  by (auto simp: is_status_def notification_def)

lemma statuses_ok_sendStatus:
  "statuses_ok w \<Longrightarrow> s = ''connected'' \<or> s = ''disconnected'' \<or> s = ''error'' \<Longrightarrow>
   statuses_ok (sendStatus s m w)"
  by (auto simp: statuses_ok_def sendStatus_out is_status_notification)

lemma statuses_ok_upd [simp]:
  "statuses_ok (w\<lparr>sockets := x\<rparr>) = statuses_ok w"
  "statuses_ok (w\<lparr>timers := y\<rparr>) = statuses_ok w"
  "statuses_ok (w\<lparr>buffer := b\<rparr>) = statuses_ok w"
  "statuses_ok (w\<lparr>alive := a\<rparr>) = statuses_ok w"
  "statuses_ok (w\<lparr>clientSocket := cs\<rparr>) = statuses_ok w"
  "statuses_ok (w\<lparr>gatewaySocket := gs\<rparr>) = statuses_ok w"
  by (simp_all add: statuses_ok_def)

lemma step_statuses:
  assumes "inv w" and "enabled w e" and "step w e = Inr w'" and "statuses_ok w"
  shows "statuses_ok w'"
proof (cases e)
  case (ClientMessage d)
  with assms show ?thesis
    by (auto simp: onClientMessage_def gatewaySend_ws statuses_ok_def split: option.splits if_splits)
next
  case ClientClosing
  with assms show ?thesis by auto
next
  case ClientClose
  with assms show ?thesis by (auto simp: onClientClose_def Let_def split: option.splits)
next
  case (GatewayOpen sid)
  have "statuses_ok (sendStatus ''connected'' (''Gateway live at '' @ GATEWAY_WS w) w)"
    using assms(4) by (simp add: statuses_ok_sendStatus)
  with assms GatewayOpen show ?thesis
    by (auto simp: step_open statuses_ok_def sendStatus_out simp del: step.simps)
next
  case (GatewayMessage sid d b)
  with assms show ?thesis by (auto simp: onGatewayMessage_def statuses_ok_def split: if_splits)
next
  case (GatewayError sid m)
  with assms show ?thesis by (auto simp: onGatewayError_def statuses_ok_sendStatus)
next
  case (GatewayClose sid)
  have "statuses_ok (sendStatus ''disconnected'' closed_message (w\<lparr>sockets := (sockets w)[sid := CLOSED]\<rparr>))"
    using assms(4) by (simp add: statuses_ok_sendStatus)
  with assms GatewayClose show ?thesis
    by (auto simp: onGatewayClose_def Let_def) (auto simp: statuses_ok_def)
next
  case (TimerFire c)
  with assms show ?thesis by (cases c) (auto simp: connectGateway_def statuses_ok_sendStatus)
next
  case (Tick d)
  with assms show ?thesis
    using is_status_mono[of "now w" _ "now w + d"] by (auto simp: statuses_ok_def)
qed

lemma run_statuses:
  assumes "inv w" and "feasible w es" and "run w es = Inr w'" and "statuses_ok w"
  shows "statuses_ok w'"
  using step_statuses by (rule run_preserves[where Q = statuses_ok, OF _ assms])

lemma statuses_ok_init: "statuses_ok (init url t0 c)"
  by (cases c) (auto simp: init_def connectGateway_def sendStatus_out statuses_ok_def
      is_status_notification)

text \<open>
  C8. In every run of the bridge, every object serialised for the browser has exactly the
  fields \<^verbatim>\<open>type\<close>, \<^verbatim>\<open>state\<close>, \<^verbatim>\<open>message\<close> and \<^verbatim>\<open>ts\<close>, in this order: the type is
  the marker \<^verbatim>\<open>__index_status\<close>, the state is one of \<^verbatim>\<open>connected\<close>,
  \<^verbatim>\<open>disconnected\<close> and \<^verbatim>\<open>error\<close>, the message is a string, and the timestamp is a
  reading of the clock, not after the present. The object that \<^verbatim>\<open>sendStatus\<close> sends
  carries the state and message it was called with and the clock of the call.
\<close>

theorem status_notification_shape:
  assumes "feasible (init url t0 c) es"
  shows "\<exists>w. run (init url t0 c) es = Inr w \<and>
           (\<forall>obj \<in> set (notifications (out w)). is_status (now w) obj) \<and>
           (\<forall>s m. clientSocket w = OPEN \<longrightarrow>
              out (sendStatus s m w) = out w @ [ClientSend (Stringified (notification s m (now w)))])"
proof -
  from assms obtain w where w: "run (init url t0 c) es = Inr w"
    using run_inv[OF inv_init] by blast
  have "statuses_ok w"
    using run_statuses[OF inv_init assms w statuses_ok_init] .
  with w show ?thesis
    by (simp add: statuses_ok_def sendStatus_out)
qed

theorem status_notification_shape_witness:
  "feasible (init ''ws://127.0.0.1:18789'' 5 Created) [GatewayOpen 0, Tick 7, GatewayClose 0] \<and>
   (\<exists>w. run (init ''ws://127.0.0.1:18789'' 5 Created) [GatewayOpen 0, Tick 7, GatewayClose 0] = Inr w \<and>
        notifications (out w) =
          [notification ''connected'' ''Gateway live at ws://127.0.0.1:18789'' 5,
           notification ''disconnected'' closed_message 12] \<and>
        is_status 12 (notification ''connected'' ''Gateway live at ws://127.0.0.1:18789'' 5) \<and>
        is_status 12 (notification ''disconnected'' closed_message 12))"
proof -
  let ?w0 = "init ''ws://127.0.0.1:18789'' 5 Created"
  let ?es = "[GatewayOpen 0, Tick 7, GatewayClose 0]"
  have f: "feasible ?w0 ?es"
    by (simp add: handler_defs)
  from status_notification_shape[OF f] obtain w where
    r: "run ?w0 ?es = Inr w" and
    ok: "\<forall>obj \<in> set (notifications (out w)). is_status (now w) obj"
    by blast
  from r have n: "notifications (out w) =
          [notification ''connected'' ''Gateway live at ws://127.0.0.1:18789'' 5,
           notification ''disconnected'' closed_message 12]" and t: "now w = 12"
    by (auto simp: handler_defs notifications_def notification_def)
  from ok n t f r show ?thesis by simp
qed

subsection \<open>Timers and connection attempts\<close>

lemma inv_in_flight:
  assumes "inv w"
  shows "length (timers w) + length (in_flight w) \<le> 1"
proof (cases "sockets w" rule: rev_cases)
  case Nil
  with assms show ?thesis by (auto simp: inv_def in_flight_def)
next
  case (snoc xs x)
  with assms have "\<forall>i < length xs. xs ! i = CLOSED"
    by (auto simp: inv_def nth_append split: if_splits)
  then have xs: "filter (\<lambda>s. s \<noteq> CLOSED) xs = []"
    by (auto simp: filter_empty_conv in_set_conv_nth)
  show ?thesis
  proof (cases "timers w = []")
    case True
    with snoc xs show ?thesis by (simp add: in_flight_def)
  next
    case False
    with assms snoc have "length (timers w) = 1" "x = CLOSED"
      by (auto simp: inv_def)
    with snoc xs show ?thesis by (simp add: in_flight_def)
  qed
qed

lemma step_alive:
  assumes "inv w" and "enabled w e" and "step w e = Inr w'"
  shows "alive w' \<longleftrightarrow> alive w \<and> e \<noteq> ClientClose"
proof (cases e)
  case (GatewayOpen sid)
  with assms show ?thesis by (auto simp: step_open simp del: step.simps)
next
  case (TimerFire c)
  with assms show ?thesis by (cases c) (auto simp: connectGateway_def)
qed (use assms in \<open>auto simp: onClientMessage_def gatewaySend_ws onClientClose_def Let_def
       onGatewayMessage_def onGatewayError_def onGatewayClose_def split: option.splits if_splits\<close>)

lemma step_scheduled:
  assumes "inv w" and "enabled w e" and "step w e = Inr w'"
  shows "scheduled (out w') =
           scheduled (out w) @ (if alive w then map (\<lambda>sid. RECONNECT_DELAY) (gateway_close e) else [])"
proof (cases e)
  case (GatewayOpen sid)
  with assms show ?thesis by (auto simp: step_open simp del: step.simps)
next
  case (TimerFire c)
  with assms show ?thesis by (cases c) (auto simp: connectGateway_def)
qed (use assms in \<open>auto simp: onClientMessage_def gatewaySend_ws onClientClose_def Let_def
       onGatewayMessage_def onGatewayError_def onGatewayClose_def split: option.splits if_splits\<close>)

lemma step_timers:
  assumes "inv w" and "enabled w e" and "step w e = Inr w'"
  shows "length (timer_fire e) + length (timers w') =
           length (timers w) + (if alive w then length (gateway_close e) else 0)"
proof (cases e)
  case (GatewayOpen sid)
  with assms show ?thesis by (auto simp: step_open simp del: step.simps)
next
  case (TimerFire c)
  with assms show ?thesis by (cases c; cases "timers w") (auto simp: connectGateway_def)
qed (use assms in \<open>auto simp: onClientMessage_def gatewaySend_ws onClientClose_def Let_def
       onGatewayMessage_def onGatewayError_def onGatewayClose_def split: option.splits if_splits\<close>)

lemma step_sockets:
  assumes "inv w" and "enabled w e" and "step w e = Inr w'"
  shows "length (sockets w') = length (sockets w) + length (filter (\<lambda>c. c = Created) (timer_fire e))"
proof (cases e)
  case (GatewayOpen sid)
  with assms show ?thesis by (auto simp: step_open simp del: step.simps)
next
  case (TimerFire c)
  with assms show ?thesis by (cases c) (auto simp: connectGateway_def)
qed (use assms in \<open>auto simp: onClientMessage_def gatewaySend_ws onClientClose_def Let_def
       onGatewayMessage_def onGatewayError_def onGatewayClose_def split: option.splits if_splits\<close>)

text \<open>The accounting of a whole run, from any state that satisfies the invariant.\<close>

lemma run_accounting:
  "inv w \<Longrightarrow> feasible w es \<Longrightarrow> run w es = Inr w' \<Longrightarrow>
   (alive w' \<longleftrightarrow> alive w \<and> ClientClose \<notin> set es) \<and>
   (alive w' \<longrightarrow> scheduled (out w') = scheduled (out w) @ map (\<lambda>sid. RECONNECT_DELAY) (closes es)) \<and>
   (\<not> alive w \<longrightarrow> scheduled (out w') = scheduled (out w)) \<and>
   length (fired es) + length (timers w') + length (scheduled (out w))
     = length (timers w) + length (scheduled (out w')) \<and>
   length (sockets w') = length (sockets w) + length (filter (\<lambda>c. c = Created) (fired es))"
proof (induction es arbitrary: w)
  case Nil
  then show ?case by (simp add: closes_def fired_def)
next
  case (Cons e es)
  then obtain w1 where w1: "step w e = Inr w1" "inv w1"
    using step_inv[of w e] by auto
  with Cons.prems have rest: "feasible w1 es" "run w1 es = Inr w'" and en: "enabled w e"
    by simp_all
  note ih = Cons.IH[OF w1(2) rest]
  note a = step_alive[OF Cons.prems(1) en w1(1)]
  note s = step_scheduled[OF Cons.prems(1) en w1(1)]
  note t = step_timers[OF Cons.prems(1) en w1(1)]
  note k = step_sockets[OF Cons.prems(1) en w1(1)]
  have 1: "alive w' \<longleftrightarrow> alive w \<and> ClientClose \<notin> set (e # es)"
    using ih a by auto
  have 2: "scheduled (out w') = scheduled (out w) @ map (\<lambda>sid. RECONNECT_DELAY) (closes (e # es))"
    if "alive w'"
    using that ih a s by (simp add: closes_def)
  have 3: "scheduled (out w') = scheduled (out w)" if "\<not> alive w"
    using that ih a s by simp
  have 4: "length (fired (e # es)) + length (timers w') + length (scheduled (out w))
     = length (timers w) + length (scheduled (out w'))"
    using ih t s by (cases "alive w") (simp_all add: fired_def)
  have 5: "length (sockets w') = length (sockets w) + length (filter (\<lambda>c. c = Created) (fired (e # es)))"
    using ih k by (simp add: fired_def)
  from 1 2 3 4 5 show ?case by blast
qed

lemma count_client_close:
  "inv w \<Longrightarrow> feasible w es \<Longrightarrow> count_list es ClientClose \<le> (if alive w then 1 else 0)"
proof (induction es arbitrary: w)
  case Nil
  then show ?case by simp
next
  case (Cons e es)
  then obtain w1 where w1: "step w e = Inr w1" "inv w1"
    using step_inv[of w e] by auto
  with Cons.prems have rest: "feasible w1 es" and en: "enabled w e"
    by simp_all
  note ih = Cons.IH[OF w1(2) rest]
  note a = step_alive[OF Cons.prems(1) en w1(1)]
  show ?case
  proof (cases "e = ClientClose")
    case True
    with en Cons.prems(1) have "alive w" by (simp add: inv_def)
    with True ih a show ?thesis by simp
  next
    case False
    with ih a show ?thesis by simp
  qed
qed

text \<open>No timer is due before the delay has passed since a moment \<open>T\<close>, once that holds.\<close>

lemma step_due:
  assumes "inv w" and "enabled w e" and "step w e = Inr w'"
    and "\<forall>t \<in> set (timers w). T + RECONNECT_DELAY \<le> t" and "T \<le> now w"
  shows "(\<forall>t \<in> set (timers w'). T + RECONNECT_DELAY \<le> t) \<and> T \<le> now w'"
proof (cases e)
  case (GatewayOpen sid)
  with assms show ?thesis by (auto simp: step_open simp del: step.simps)
next
  case (TimerFire c)
  with assms show ?thesis
    by (cases c; cases "timers w") (auto simp: connectGateway_def)
qed (use assms in \<open>auto simp: onClientMessage_def gatewaySend_ws onClientClose_def Let_def
       onGatewayMessage_def onGatewayError_def onGatewayClose_def split: option.splits if_splits\<close>)

lemma run_due:
  assumes "inv w" and "feasible w es" and "run w es = Inr w'"
    and "(\<forall>t \<in> set (timers w). T + RECONNECT_DELAY \<le> t) \<and> T \<le> now w"
  shows "(\<forall>t \<in> set (timers w'). T + RECONNECT_DELAY \<le> t) \<and> T \<le> now w'"
proof (rule run_preserves[where Q = "\<lambda>v. (\<forall>t \<in> set (timers v). T + RECONNECT_DELAY \<le> t) \<and> T \<le> now v",
      OF _ assms])
  fix v e v'
  assume "inv v" "enabled v e" "step v e = Inr v'"
    "(\<forall>t \<in> set (timers v). T + RECONNECT_DELAY \<le> t) \<and> T \<le> now v"
  then show "(\<forall>t \<in> set (timers v'). T + RECONNECT_DELAY \<le> t) \<and> T \<le> now v'"
    using step_due[of v e v' T] by blast
qed

lemma step_close_alive:
  assumes "inv w" and "enabled w (GatewayClose sid)" and "alive w"
  shows "\<exists>w'. step w (GatewayClose sid) = Inr w' \<and> inv w' \<and>
           timers w' = [now w + RECONNECT_DELAY] \<and> in_flight w' = [] \<and> now w' = now w"
proof -
  from assms obtain w' where w': "step w (GatewayClose sid) = Inr w'" "inv w'"
    using step_inv by blast
  from assms have "timers w = []"
    using only_last_live[of w sid] by simp
  with w'(1) assms(3) have t: "timers w' = [now w + RECONNECT_DELAY]" "now w' = now w"
    by (auto simp: onGatewayClose_def Let_def)
  with inv_in_flight[OF w'(2)] have "in_flight w' = []" by simp
  with w' t show ?thesis by simp
qed

text \<open>
  As long as the browser connection lives and no call of the constructor has thrown, a
  reconnect timer is pending or the current upstream socket is not closed yet.
\<close>

lemma step_retry:
  assumes "inv w" and "enabled w e" and "step w e = Inr w'"
    and "\<forall>r \<in> set (timer_fire e). r = Created"
    and "alive w \<longrightarrow> timers w \<noteq> [] \<or> (\<exists>g. gatewaySocket w = Some g \<and> sockets w ! g \<noteq> CLOSED)"
  shows "alive w' \<longrightarrow> timers w' \<noteq> [] \<or> (\<exists>g. gatewaySocket w' = Some g \<and> sockets w' ! g \<noteq> CLOSED)"
proof (cases e)
  case (ClientMessage d)
  with assms show ?thesis
    by (auto simp: onClientMessage_def gatewaySend_ws split: option.splits if_splits)
next
  case ClientClosing
  with assms show ?thesis by auto
next
  case ClientClose
  with assms show ?thesis
    by (auto simp: onClientClose_def Let_def split: option.splits)
next
  case (GatewayOpen sid)
  with assms have "gatewaySocket w = Some sid" "sid < length (sockets w)"
    using only_last_live[of w sid] by simp_all
  with assms GatewayOpen show ?thesis
    by (auto simp: step_open simp del: step.simps)
next
  case (GatewayMessage sid d b)
  with assms show ?thesis by (auto simp: onGatewayMessage_def split: if_splits)
next
  case (GatewayError sid m)
  with assms have "gatewaySocket w = Some sid" "sid < length (sockets w)"
    using only_last_live[of w sid] by simp_all
  with assms GatewayError show ?thesis
    by (auto simp: onGatewayError_def)
next
  case (GatewayClose sid)
  with assms show ?thesis
    by (auto simp: onGatewayClose_def Let_def split: if_splits)
next
  case (TimerFire r)
  with assms have "r = Created" by simp
  with assms TimerFire show ?thesis
    by (auto simp: connectGateway_def)
next
  case (Tick d)
  with assms show ?thesis by auto
qed

lemma run_retry:
  "inv w \<Longrightarrow> feasible w es \<Longrightarrow> run w es = Inr w' \<Longrightarrow> \<forall>r \<in> set (fired es). r = Created \<Longrightarrow>
   alive w \<longrightarrow> timers w \<noteq> [] \<or> (\<exists>g. gatewaySocket w = Some g \<and> sockets w ! g \<noteq> CLOSED) \<Longrightarrow>
   alive w' \<longrightarrow> timers w' \<noteq> [] \<or> (\<exists>g. gatewaySocket w' = Some g \<and> sockets w' ! g \<noteq> CLOSED)"
proof (induction es arbitrary: w)
  case Nil
  then show ?case by simp
next
  case (Cons e es)
  then obtain w1 where w1: "step w e = Inr w1" "inv w1"
    using step_inv[of w e] by auto
  with Cons.prems have rest: "feasible w1 es" "run w1 es = Inr w'" and en: "enabled w e"
    by simp_all
  from Cons.prems(4) have c1: "\<forall>r \<in> set (timer_fire e). r = Created"
    and c2: "\<forall>r \<in> set (fired es). r = Created"
    by (simp_all add: fired_def)
  note k1 = step_retry[OF Cons.prems(1) en w1(1) c1 Cons.prems(5)]
  from Cons.IH[OF w1(2) rest c2 k1] show ?case .
qed

lemma current_in_flight:
  assumes "inv w" and "gatewaySocket w = Some g" and "sockets w ! g \<noteq> CLOSED"
  shows "in_flight w \<noteq> []"
proof -
  from assms(1,2) have "g < length (sockets w)"
    by (auto simp: inv_def split: if_splits)
  then have "sockets w ! g \<in> set (sockets w)" by simp
  with assms(3) show ?thesis
    by (auto simp: in_flight_def filter_empty_conv)
qed

text \<open>
  With no timer pending and every upstream socket closed, no timer fires and no socket is
  made any more, whatever follows.
\<close>

lemma step_idle:
  assumes "inv w" and "enabled w e" and "step w e = Inr w'"
    and "timers w = []" and "in_flight w = []"
  shows "timer_fire e = [] \<and> sockets w' = sockets w \<and> timers w' = []"
proof -
  from assms(5) have closed: "\<forall>i < length (sockets w). sockets w ! i = CLOSED"
    by (auto simp: in_flight_def filter_empty_conv)
  have cur: "g < length (sockets w)" if "gatewaySocket w = Some g" for g
    using that assms(1) by (auto simp: inv_def split: if_splits)
  show ?thesis
  proof (cases e)
    case (ClientMessage d)
    with assms closed cur show ?thesis
      by (auto simp: onClientMessage_def split: option.splits)
  next
    case ClientClosing
    with assms show ?thesis by auto
  next
    case ClientClose
    with assms closed cur show ?thesis
      by (auto simp: onClientClose_def Let_def ws_close_def list_update_same_conv
          split: option.splits)
  next
    case (GatewayOpen sid)
    with assms closed show ?thesis by auto
  next
    case (GatewayMessage sid d b)
    with assms closed show ?thesis by auto
  next
    case (GatewayError sid m)
    with assms closed show ?thesis by auto
  next
    case (GatewayClose sid)
    with assms closed show ?thesis by auto
  next
    case (TimerFire r)
    with assms show ?thesis by auto
  next
    case (Tick d)
    with assms show ?thesis by auto
  qed
qed

lemma run_idle:
  "inv w \<Longrightarrow> feasible w es \<Longrightarrow> run w es = Inr w' \<Longrightarrow> timers w = [] \<Longrightarrow> in_flight w = [] \<Longrightarrow>
   fired es = [] \<and> sockets w' = sockets w \<and> timers w' = []"
proof (induction es arbitrary: w)
  case Nil
  then show ?case by (simp add: fired_def)
next
  case (Cons e es)
  then obtain w1 where w1: "step w e = Inr w1" "inv w1"
    using step_inv[of w e] by auto
  with Cons.prems have rest: "feasible w1 es" "run w1 es = Inr w'" and en: "enabled w e"
    by simp_all
  from step_idle[OF Cons.prems(1) en w1(1) Cons.prems(4,5)]
  have s: "timer_fire e = []" "sockets w1 = sockets w" "timers w1 = []" by simp_all
  with Cons.prems(5) have "in_flight w1 = []" by (simp add: in_flight_def)
  from Cons.IH[OF w1(2) rest s(3) this] s show ?case
    by (simp add: fired_def)
qed

text \<open>
  C3 (as amended). The delay handed to \<^verbatim>\<open>setTimeout\<close> is the constant 3000, whatever happened
  before. In every run of the bridge: the pending timers and the upstream sockets that are
  not closed are never more than one together; while the browser connection lives, the
  timers set so far are one per close of an upstream socket, each with that delay, with no
  bound on their number; every timer set has fired or is pending, and every firing makes
  one call of the constructor. The close of an upstream socket, while the browser
  connection lives, leaves one timer due after the delay and no socket in flight, and no
  timer can fire before the clock has advanced by the delay. The retries go on for as long
  as the browser connection lives and no call of the constructor has thrown: at every
  moment of such a run either one reconnect timer is pending or one upstream socket is
  not closed yet, whose close sets the next timer.
\<close>

theorem reconnect_after_fixed_delay:
  assumes "feasible (init url t0 c) es"
  shows "\<exists>w. run (init url t0 c) es = Inr w \<and>
           RECONNECT_DELAY = 3000 \<and>
           length (timers w) + length (in_flight w) \<le> 1 \<and>
           (alive w \<longrightarrow> scheduled (out w) = map (\<lambda>sid. RECONNECT_DELAY) (closes es)) \<and>
           length (fired es) + length (timers w) = length (scheduled (out w)) \<and>
           length (sockets w) = length (filter (\<lambda>r. r = Created) (c # fired es)) \<and>
           (\<forall>sid. alive w \<and> enabled w (GatewayClose sid) \<longrightarrow>
              (\<exists>w'. step w (GatewayClose sid) = Inr w' \<and>
                 timers w' = [now w + RECONNECT_DELAY] \<and> in_flight w' = [] \<and>
                 (\<forall>es' w'' c'. feasible w' es' \<and> run w' es' = Inr w'' \<and> enabled w'' (TimerFire c')
                     \<longrightarrow> now w + RECONNECT_DELAY \<le> now w''))) \<and>
           (alive w \<and> c = Created \<and> (\<forall>r \<in> set (fired es). r = Created) \<longrightarrow>
              length (timers w) + length (in_flight w) = 1)"
proof -
  let ?w0 = "init url t0 c"
  from assms obtain w where w: "run ?w0 es = Inr w" "inv w"
    using run_inv[OF inv_init] by blast
  note acc = run_accounting[OF inv_init assms w(1)]
  have s0: "length (sockets ?w0) = length (filter (\<lambda>r. r = Created) [c])"
    by (cases c) (simp_all add: init_def connectGateway_def sendStatus_def)
  have a: "length (timers w) + length (in_flight w) \<le> 1"
    using inv_in_flight[OF w(2)] .
  have b: "alive w \<longrightarrow> scheduled (out w) = map (\<lambda>sid. RECONNECT_DELAY) (closes es)"
    using acc by simp
  have d: "length (fired es) + length (timers w) = length (scheduled (out w))"
    using acc by simp
  have e: "length (sockets w) = length (filter (\<lambda>r. r = Created) (c # fired es))"
    using acc s0 by simp
  have f: "\<exists>w'. step w (GatewayClose sid) = Inr w' \<and>
                 timers w' = [now w + RECONNECT_DELAY] \<and> in_flight w' = [] \<and>
                 (\<forall>es' w'' c'. feasible w' es' \<and> run w' es' = Inr w'' \<and> enabled w'' (TimerFire c')
                     \<longrightarrow> now w + RECONNECT_DELAY \<le> now w'')"
    if "alive w \<and> enabled w (GatewayClose sid)" for sid
  proof -
    from that w(2) obtain w' where w': "step w (GatewayClose sid) = Inr w'" "inv w'"
      "timers w' = [now w + RECONNECT_DELAY]" "in_flight w' = []" "now w' = now w"
      using step_close_alive by blast
    have "now w + RECONNECT_DELAY \<le> now w''"
      if r: "feasible w' es'" "run w' es' = Inr w''" "enabled w'' (TimerFire c')" for es' w'' c'
    proof -
      have "(\<forall>t \<in> set (timers w''). now w + RECONNECT_DELAY \<le> t) \<and> now w \<le> now w''"
        using run_due[OF w'(2) r(1) r(2), of "now w"] w'(3,5) by simp
      moreover from r(3) have "hd (timers w'') \<in> set (timers w'')" "hd (timers w'') \<le> now w''"
        by simp_all
      ultimately show ?thesis by (meson le_trans)
    qed
    with w' show ?thesis by blast
  qed
  have g: "length (timers w) + length (in_flight w) = 1"
    if h: "alive w \<and> c = Created \<and> (\<forall>r \<in> set (fired es). r = Created)"
  proof -
    from h have k0: "alive ?w0 \<longrightarrow> timers ?w0 \<noteq> [] \<or>
        (\<exists>g. gatewaySocket ?w0 = Some g \<and> sockets ?w0 ! g \<noteq> CLOSED)"
      by (simp add: init_def connectGateway_def)
    from h have al: "alive w" and cr: "\<forall>r \<in> set (fired es). r = Created" by simp_all
    from run_retry[OF inv_init assms w(1) cr k0] al
    have "timers w \<noteq> [] \<or> (\<exists>g. gatewaySocket w = Some g \<and> sockets w ! g \<noteq> CLOSED)"
      by simp
    then have "timers w \<noteq> [] \<or> in_flight w \<noteq> []"
      using current_in_flight[OF w(2)] by blast
    then have "1 \<le> length (timers w) + length (in_flight w)"
      by (cases "timers w"; cases "in_flight w") simp_all
    with a show ?thesis by simp
  qed
  from w(1) a b d e f g show ?thesis
    by (simp add: RECONNECT_DELAY_def del: enabled.simps step.simps)
qed

theorem reconnect_after_fixed_delay_witness:
  "feasible (init ''ws://127.0.0.1:18789'' 0 Created)
     [GatewayOpen 0, GatewayClose 0, Tick 3000, TimerFire Created, GatewayClose 1] \<and>
   (\<exists>w. run (init ''ws://127.0.0.1:18789'' 0 Created)
           [GatewayOpen 0, GatewayClose 0, Tick 3000, TimerFire Created, GatewayClose 1] = Inr w \<and>
        alive w \<and> scheduled (out w) = [3000, 3000] \<and> length (sockets w) = 2 \<and>
        length (timers w) = 1 \<and> in_flight w = [] \<and>
        length (timers w) + length (in_flight w) = 1)"
proof -
  let ?w0 = "init ''ws://127.0.0.1:18789'' 0 Created"
  let ?es = "[GatewayOpen 0, GatewayClose 0, Tick 3000, TimerFire Created, GatewayClose 1]"
  have f: "feasible ?w0 ?es"
    by (simp add: handler_defs)
  from reconnect_after_fixed_delay[OF f] obtain w where
    r: "run ?w0 ?es = Inr w" and
    d: "RECONNECT_DELAY = 3000" and
    one: "length (timers w) + length (in_flight w) \<le> 1" and
    sch: "alive w \<longrightarrow> scheduled (out w) = map (\<lambda>sid. RECONNECT_DELAY) (closes ?es)" and
    tm: "length (fired ?es) + length (timers w) = length (scheduled (out w))" and
    sk: "length (sockets w) = length (filter (\<lambda>r. r = Created) (Created # fired ?es))" and
    go: "alive w \<and> Created = Created \<and> (\<forall>r \<in> set (fired ?es). r = Created) \<longrightarrow>
           length (timers w) + length (in_flight w) = 1"
    by blast
  from r have a: "alive w"
    by (auto simp: handler_defs)
  with go have on: "length (timers w) + length (in_flight w) = 1"
    by (simp add: fired_def)
  from a sch d have s: "scheduled (out w) = [3000, 3000]"
    by (simp add: closes_def)
  with tm have t: "length (timers w) = 1"
    by (simp add: fired_def)
  with one have i: "in_flight w = []"
    by simp
  from sk have "length (sockets w) = 2"
    by (simp add: fired_def)
  with f r a s t i on show ?thesis by blast
qed

text \<open>
  C3 as it is written fails in its last part: once a call of the constructor has thrown,
  the catch branch returns without a timer and without a socket, and by \<open>run_idle\<close>
  nothing is tried again although the browser connection lives. First state: the call made
  when the browser connects throws. Second run: the upstream socket closes, the timer
  fires after the delay and the constructor throws.
\<close>

theorem retries_end_after_throw_counterexample:
  "alive (init ''ws://127.0.0.1:99999'' 0 (Threw ''Invalid URL: ws://127.0.0.1:99999'')) \<and>
   clientSocket (init ''ws://127.0.0.1:99999'' 0 (Threw ''Invalid URL: ws://127.0.0.1:99999'')) = OPEN \<and>
   timers (init ''ws://127.0.0.1:99999'' 0 (Threw ''Invalid URL: ws://127.0.0.1:99999'')) = [] \<and>
   in_flight (init ''ws://127.0.0.1:99999'' 0 (Threw ''Invalid URL: ws://127.0.0.1:99999'')) = [] \<and>
   feasible (init ''ws://127.0.0.1:18789'' 0 Created)
     [GatewayClose 0, Tick 3000, TimerFire (Threw ''socket creation failed'')] \<and>
   map_sum id (\<lambda>w. (alive w, clientSocket w, timers w, in_flight w, sockets w))
     (run (init ''ws://127.0.0.1:18789'' 0 Created)
        [GatewayClose 0, Tick 3000, TimerFire (Threw ''socket creation failed'')]) =
     Inr (True, OPEN, [], [], [CLOSED])"
  by (simp add: handler_defs in_flight_def)

text \<open>
  C10. In every run of the bridge: \<open>alive\<close> is true exactly as long as the browser socket
  has not closed, a step makes it false only by the close of the browser socket and no
  step makes it true, and that close happens at most once. After it, whatever follows: no
  timer is set any more; at most one timer was pending and only that one can fire; each
  firing makes at most one upstream socket, so at most one more is ever made; and the
  close of that socket sets no timer.
\<close>

theorem liveness_flag_cleared_once:
  assumes "feasible (init url t0 c) es"
  shows "\<exists>w. run (init url t0 c) es = Inr w \<and>
           (alive w \<longleftrightarrow> ClientClose \<notin> set es) \<and> count_list es ClientClose \<le> 1 \<and>
           (\<forall>e w'. enabled w e \<and> step w e = Inr w' \<longrightarrow> (alive w' \<longleftrightarrow> alive w \<and> e \<noteq> ClientClose)) \<and>
           (\<not> alive w \<longrightarrow> length (timers w) \<le> 1 \<and>
              (\<forall>es' w'. feasible w es' \<and> run w es' = Inr w' \<longrightarrow>
                 \<not> alive w' \<and> scheduled (out w') = scheduled (out w) \<and>
                 length (fired es') + length (timers w') = length (timers w) \<and>
                 length (fired es') \<le> 1 \<and>
                 length (sockets w') \<le> length (sockets w) + length (fired es')))"
proof -
  let ?w0 = "init url t0 c"
  from assms obtain w where w: "run ?w0 es = Inr w" "inv w"
    using run_inv[OF inv_init] by blast
  have a: "alive w \<longleftrightarrow> ClientClose \<notin> set es"
    using run_accounting[OF inv_init assms w(1)] by simp
  have b: "count_list es ClientClose \<le> 1"
    using count_client_close[OF inv_init assms] by simp
  have d: "alive w' \<longleftrightarrow> alive w \<and> e \<noteq> ClientClose"
    if "enabled w e \<and> step w e = Inr w'" for e w'
    using step_alive[OF w(2)] that by blast
  have t: "length (timers w) \<le> 1"
    using inv_in_flight[OF w(2)] by simp
  have e: "\<not> alive w' \<and> scheduled (out w') = scheduled (out w) \<and>
           length (fired es') + length (timers w') = length (timers w) \<and>
           length (fired es') \<le> 1 \<and>
           length (sockets w') \<le> length (sockets w) + length (fired es')"
    if dead: "\<not> alive w" and r: "feasible w es' \<and> run w es' = Inr w'" for es' w'
  proof -
    from r have r1: "feasible w es'" and r2: "run w es' = Inr w'" by simp_all
    note acc = run_accounting[OF w(2) r1 r2]
    from acc dead have 1: "\<not> alive w'" and 2: "scheduled (out w') = scheduled (out w)"
      by simp_all
    from acc 2 have 3: "length (fired es') + length (timers w') = length (timers w)"
      by simp
    with t have 4: "length (fired es') \<le> 1" by simp
    from acc have "length (sockets w') = length (sockets w) + length (filter (\<lambda>r. r = Created) (fired es'))"
      by simp
    moreover have "length (filter (\<lambda>r. r = Created) (fired es')) \<le> length (fired es')"
      by (rule length_filter_le)
    ultimately have 5: "length (sockets w') \<le> length (sockets w) + length (fired es')"
      by simp
    from 1 2 3 4 5 show ?thesis by blast
  qed
  from w(1) a b d t e show ?thesis
    by (simp del: enabled.simps step.simps)
qed

theorem liveness_flag_cleared_once_witness:
  "feasible (init ''ws://127.0.0.1:18789'' 0 Created) [GatewayClose 0, ClientClose] \<and>
   (\<exists>w. run (init ''ws://127.0.0.1:18789'' 0 Created) [GatewayClose 0, ClientClose] = Inr w \<and>
        \<not> alive w \<and> timers w = [3000] \<and>
        feasible w [Tick 3000, TimerFire Created, GatewayClose 1] \<and>
        (\<exists>w'. run w [Tick 3000, TimerFire Created, GatewayClose 1] = Inr w' \<and>
           \<not> alive w' \<and> scheduled (out w') = scheduled (out w) \<and>
           timers w' = [] \<and> length (sockets w') \<le> length (sockets w) + 1))"
proof -
  let ?w0 = "init ''ws://127.0.0.1:18789'' 0 Created"
  let ?es = "[GatewayClose 0, ClientClose]"
  let ?es' = "[Tick 3000, TimerFire Created, GatewayClose 1]"
  have f: "feasible ?w0 ?es"
    by (simp add: handler_defs)
  from liveness_flag_cleared_once[OF f] obtain w where
    r: "run ?w0 ?es = Inr w" and
    a: "alive w \<longleftrightarrow> ClientClose \<notin> set ?es" and
    after: "\<not> alive w \<longrightarrow> length (timers w) \<le> 1 \<and>
              (\<forall>es' w'. feasible w es' \<and> run w es' = Inr w' \<longrightarrow>
                 \<not> alive w' \<and> scheduled (out w') = scheduled (out w) \<and>
                 length (fired es') + length (timers w') = length (timers w) \<and>
                 length (fired es') \<le> 1 \<and>
                 length (sockets w') \<le> length (sockets w) + length (fired es'))"
    by blast
  from a have dead: "\<not> alive w" by simp
  from r have t: "timers w = [3000]" and f': "feasible w ?es'"
    by (auto simp: handler_defs)
  from r obtain w' where r': "run w ?es' = Inr w'"
    by (auto simp: handler_defs)
  from after dead f' r' have
    "\<not> alive w'" "scheduled (out w') = scheduled (out w)"
    "length (fired ?es') + length (timers w') = length (timers w)"
    "length (sockets w') \<le> length (sockets w) + length (fired ?es')"
    by blast+
  with t have "\<not> alive w'" "scheduled (out w') = scheduled (out w)" "timers w' = []"
    "length (sockets w') \<le> length (sockets w) + 1"
    by (simp_all add: fired_def)
  with f r dead t f' r' show ?thesis by blast
qed

subsection \<open>The flush loop under any \<^verbatim>\<open>send\<close>\<close>

lemma flush_skip:
  "gatewaySocket w = Some g \<Longrightarrow> sockets w ! g \<noteq> OPEN \<Longrightarrow> forEach_flush sendf ms w = Inr w"
  by (induction ms) simp_all

lemma flush_append:
  "forEach_flush sendf (xs @ ys) w =
     (case forEach_flush sendf xs w of Inl x \<Rightarrow> Inl x | Inr w1 \<Rightarrow> forEach_flush sendf ys w1)"
  by (induction xs arbitrary: w) (simp_all split: option.splits)

lemma flush_keeps:
  "forEach_flush sendf ms w = Inr w' \<Longrightarrow>
   gatewaySocket w' = gatewaySocket w \<and> buffer w' = buffer w \<and>
   length (upstream (out w')) \<le> length (upstream (out w)) + length ms"
proof (induction ms arbitrary: w)
  case Nil
  then show ?case by simp
next
  case (Cons m ms)
  then obtain g where g: "gatewaySocket w = Some g"
    by (cases "gatewaySocket w") simp_all
  show ?case
  proof (cases "sockets w ! g = OPEN")
    case True
    with Cons.prems g have "forEach_flush sendf ms (gatewaySend sendf g m w) = Inr w'"
      by simp
    from Cons.IH[OF this] show ?thesis
      by (simp add: gatewaySend_def)
  next
    case False
    with Cons.prems g have "forEach_flush sendf ms w = Inr w'"
      by simp
    from Cons.IH[OF this] show ?thesis by simp
  qed
qed

text \<open>
  C9. Whatever \<^verbatim>\<open>send\<close> does to \<^verbatim>\<open>readyState\<close>: if the upstream socket is not open any
  more once the loop of the \<^verbatim>\<open>open\<close> handler has gone through a first part of the
  buffer, the loop passes over every remaining frame without a call of \<^verbatim>\<open>send\<close>, and
  the handler ends with the buffer empty. The trace is the one left by the first part, so
  at most that many frames were handed to the upstream, and the rest is neither sent nor
  kept.
\<close>

theorem flush_skips_and_clears:
  assumes "gatewaySocket w = Some g"
    and "buffer w = pre @ rest"
    and "forEach_flush sendf pre (sendStatus ''connected'' (''Gateway live at '' @ GATEWAY_WS w) w) = Inr w1"
    and "sockets w1 ! g \<noteq> OPEN"
  shows "onGatewayOpen sendf w = Inr (w1\<lparr>buffer := []\<rparr>) \<and>
         forEach_flush sendf rest w1 = Inr w1 \<and>
         length (upstream (out w1)) \<le> length (upstream (out w)) + length pre"
proof -
  let ?w0 = "sendStatus ''connected'' (''Gateway live at '' @ GATEWAY_WS w) w"
  from flush_keeps[OF assms(3)] assms(1)
  have g1: "gatewaySocket w1 = Some g"
    and len: "length (upstream (out w1)) \<le> length (upstream (out w)) + length pre"
    by simp_all
  from g1 assms(4) have skip: "forEach_flush sendf rest w1 = Inr w1"
    by (rule flush_skip)
  with assms(3) have "forEach_flush sendf (pre @ rest) ?w0 = Inr w1"
    by (simp add: flush_append)
  with assms(2) have "onGatewayOpen sendf w = Inr (w1\<lparr>buffer := []\<rparr>)"
    by (simp add: onGatewayOpen_def Let_def)
  with skip len show ?thesis by simp
qed

theorem flush_skips_and_clears_witness:
  "onGatewayOpen (\<lambda>rs p. CLOSING)
     \<lparr>GATEWAY_WS = ''ws://127.0.0.1:18789'', clientSocket = OPEN, gatewaySocket = Some 0,
      buffer = [Raw ''a'', Raw ''b'', Raw ''c''], alive = True, sockets = [OPEN], timers = [],
      now = 0, out = []\<rparr>
   = Inr \<lparr>GATEWAY_WS = ''ws://127.0.0.1:18789'', clientSocket = OPEN, gatewaySocket = Some 0,
      buffer = [], alive = True, sockets = [CLOSING], timers = [], now = 0,
      out = [ClientSend (Stringified (notification ''connected'' ''Gateway live at ws://127.0.0.1:18789'' 0)),
             GatewaySend 0 (Raw ''a'')]\<rparr>"
proof -
  let ?w = "\<lparr>GATEWAY_WS = ''ws://127.0.0.1:18789'', clientSocket = OPEN, gatewaySocket = Some 0,
      buffer = [Raw ''a'', Raw ''b'', Raw ''c''], alive = True, sockets = [OPEN], timers = [],
      now = 0, out = []\<rparr>"
  let ?w1 = "\<lparr>GATEWAY_WS = ''ws://127.0.0.1:18789'', clientSocket = OPEN, gatewaySocket = Some 0,
      buffer = [Raw ''a'', Raw ''b'', Raw ''c''], alive = True, sockets = [CLOSING], timers = [],
      now = 0,
      out = [ClientSend (Stringified (notification ''connected'' ''Gateway live at ws://127.0.0.1:18789'' 0)),
             GatewaySend 0 (Raw ''a'')]\<rparr>"
  have 1: "gatewaySocket ?w = Some 0" by simp
  have 2: "buffer ?w = [Raw ''a''] @ [Raw ''b'', Raw ''c'']" by simp
  have 3: "forEach_flush (\<lambda>rs p. CLOSING) [Raw ''a'']
             (sendStatus ''connected'' (''Gateway live at '' @ GATEWAY_WS ?w) ?w) = Inr ?w1"
    by (simp add: sendStatus_def gatewaySend_def notification_def)
  have 4: "sockets ?w1 ! 0 \<noteq> OPEN" by simp
  from flush_skips_and_clears[OF 1 2 3 4] show ?thesis by simp
qed

subsection \<open>Between two opens of the upstream\<close>

lemma upstream_Cons [simp]: "upstream (e # tr) = to_gateway e @ upstream tr"
  by (simp add: upstream_def)

lemma upstream_open_iff:
  "upstream_open w \<longleftrightarrow> (\<exists>g. gatewaySocket w = Some g \<and> sockets w ! g = OPEN)"
  by (simp add: upstream_open_def split: option.splits)

lemma step_no_open:
  assumes "inv w" and "enabled w e" and "step w e = Inr w'"
    and "\<not> upstream_open w" and "gateway_open e = []"
  shows "\<not> upstream_open w' \<and> upstream (out w') = upstream (out w)"
proof (cases e)
  case (GatewayOpen sid)
  with assms show ?thesis by simp
next
  case (TimerFire c)
  with assms show ?thesis
    by (cases c) (auto simp: connectGateway_def upstream_open_iff)
next
  case (GatewayError sid m)
  with assms have "gatewaySocket w = Some sid \<and> Suc sid = length (sockets w)"
    using only_last_live[of w sid] by simp
  with assms GatewayError show ?thesis
    by (auto simp: onGatewayError_def upstream_open_iff split: if_splits)
next
  case (GatewayClose sid)
  with assms have "gatewaySocket w = Some sid \<and> Suc sid = length (sockets w)"
    using only_last_live[of w sid] by simp
  with assms GatewayClose show ?thesis
    by (auto simp: onGatewayClose_def Let_def upstream_open_iff split: if_splits)
next
  case ClientClose
  with assms show ?thesis
    by (auto simp: onClientClose_def Let_def upstream_open_iff ws_close_def inv_def
        split: option.splits if_splits)
qed (use assms in \<open>auto simp: onClientMessage_def gatewaySend_ws
       onGatewayMessage_def upstream_open_iff split: option.splits if_splits\<close>)

lemma run_no_open:
  "inv w \<Longrightarrow> feasible w es \<Longrightarrow> run w es = Inr w' \<Longrightarrow> \<not> upstream_open w \<Longrightarrow> opens es = [] \<Longrightarrow>
   \<not> upstream_open w' \<and> upstream (out w') = upstream (out w)"
proof (induction es arbitrary: w)
  case Nil
  then show ?case by simp
next
  case (Cons e es)
  then obtain w1 where w1: "step w e = Inr w1" "inv w1"
    using step_inv[of w e] by auto
  with Cons.prems have rest: "feasible w1 es" "run w1 es = Inr w'" and en: "enabled w e"
    and o: "gateway_open e = []" "opens es = []"
    by (simp_all add: opens_def)
  from step_no_open[OF Cons.prems(1) en w1(1) Cons.prems(4) o(1)]
  have "\<not> upstream_open w1" "upstream (out w1) = upstream (out w)" by simp_all
  with Cons.IH[OF w1(2) rest _ o(2)] show ?case by simp
qed

text \<open>
  C7 (as amended). A frame \<open>d\<close> of the browser arrives while the current upstream socket
  is not open, and no upstream socket opens until the event \<open>GatewayOpen sid\<close>; the browser
  socket is open at that event. Then nothing was handed to the upstream in between, and
  the \<^verbatim>\<open>open\<close> handler first sends the notification \<^verbatim>\<open>connected\<close> to the browser and
  then hands the buffer to the socket that opened: the frames buffered before \<open>d\<close>, then
  \<open>d\<close>, then the frames that came after it. After the handler the buffer is empty and
  the payloads handed to the upstream in the whole run are the frames of the browser,
  each once.
\<close>

theorem buffered_frame_sent_once_after_connected:
  assumes "feasible (init url t0 c) (es @ ClientMessage d # es' @ [GatewayOpen sid])"
    and "run (init url t0 c) es = Inr w"
    and "\<not> upstream_open w"
    and "opens es' = []"
    and "run (init url t0 c) (es @ ClientMessage d # es') = Inr w2"
    and "clientSocket w2 = OPEN"
  shows "\<exists>w3. step w2 (GatewayOpen sid) = Inr w3 \<and>
           upstream (out w2) = upstream (out w) \<and>
           out w3 = out w2 @
              ClientSend (Stringified (notification ''connected'' (''Gateway live at '' @ url) (now w2)))
              # map (GatewaySend sid) (buffer w @ Raw d # map Raw (client_frames es')) \<and>
           buffer w3 = [] \<and>
           upstream (out w3) = map Raw (client_frames (es @ ClientMessage d # es'))"
proof -
  let ?w0 = "init url t0 c"
  let ?all = "es @ ClientMessage d # es'"
  from assms(1) have fa: "feasible ?w0 ?all" and f0: "feasible ?w0 es"
    using feasible_append[of ?w0 ?all "[GatewayOpen sid]"] feasible_append[of ?w0 es]
    by auto
  from assms(1,5) have en: "enabled w2 (GatewayOpen sid)"
    using feasible_append[of ?w0 ?all "[GatewayOpen sid]"] by simp
  from run_inv[OF inv_init f0] assms(2) have iw: "inv w" by simp
  from run_inv[OF inv_init fa] assms(5) have iw2: "inv w2" by simp
  let ?w1 = "w\<lparr>buffer := buffer w @ [Raw d]\<rparr>"
  have s1: "step w (ClientMessage d) = Inr ?w1"
    using push_when_not_open[OF assms(3)] .
  from fa assms(2) have f1: "feasible w (ClientMessage d # es')"
    using feasible_append[of ?w0 es] by simp
  with s1 have f2: "feasible ?w1 es'" and e1: "enabled w (ClientMessage d)" by simp_all
  from assms(5) assms(2) s1 have r2: "run ?w1 es' = Inr w2"
    by (simp add: run_append)
  from step_inv[OF iw e1] s1 have i1: "inv ?w1" by simp
  have n1: "\<not> upstream_open ?w1"
    using assms(3) by (simp add: upstream_open_iff)
  from run_no_open[OF i1 f2 r2 n1 assms(4)]
  have u2: "upstream (out w2) = upstream (out w)" by simp
  from run_upstream[OF i1 f2 r2] u2
  have b2: "buffer w2 = buffer w @ Raw d # map Raw (client_frames es')" by simp
  have url: "GATEWAY_WS w2 = url"
    using run_url[OF inv_init fa assms(5)] by simp
  have acc: "upstream (out w2) @ buffer w2 = map Raw (client_frames ?all)"
    using run_upstream[OF inv_init fa assms(5)] by simp
  let ?n = "ClientSend (Stringified (notification ''connected'' (''Gateway live at '' @ url) (now w2)))"
  from step_open[OF iw2 en] url assms(6) obtain w3 where
    w3: "step w2 (GatewayOpen sid) = Inr w3" and
    o3: "out w3 = out w2 @ ?n # map (GatewaySend sid) (buffer w2)" and
    b3: "buffer w3 = []"
    by (simp add: sendStatus_out del: step.simps)
  from o3 have "upstream (out w3) = upstream (out w2) @ buffer w2"
    by simp
  with acc have "upstream (out w3) = map Raw (client_frames ?all)"
    by simp
  with w3 o3 b3 u2 b2 show ?thesis
    by (simp del: step.simps)
qed

theorem buffered_frame_sent_once_after_connected_witness:
  "feasible (init ''ws://127.0.0.1:18789'' 0 Created) [ClientMessage ''ping'', Tick 50, GatewayOpen 0] \<and>
   map_sum id out (run (init ''ws://127.0.0.1:18789'' 0 Created)
                     [ClientMessage ''ping'', Tick 50, GatewayOpen 0]) =
     Inr [ClientSend (Stringified
            (notification ''connected'' ''Gateway live at ws://127.0.0.1:18789'' 50)),
          GatewaySend 0 (Raw ''ping'')]"
proof -
  let ?w0 = "init ''ws://127.0.0.1:18789'' 0 Created"
  have f: "feasible ?w0 ([] @ ClientMessage ''ping'' # [Tick 50] @ [GatewayOpen 0])"
    by (simp add: handler_defs)
  have r0: "run ?w0 [] = Inr ?w0" by simp
  have n0: "\<not> upstream_open ?w0"
    by (simp add: upstream_open_def handler_defs)
  have o: "opens [Tick 50] = []"
    by (simp add: opens_def)
  obtain w2 where r2: "run ?w0 ([] @ ClientMessage ''ping'' # [Tick 50]) = Inr w2"
    by (simp add: handler_defs)
  then have c2: "clientSocket w2 = OPEN" and o2: "out w2 = []" and t2: "now w2 = 50"
    by (auto simp: handler_defs)
  have b0: "buffer ?w0 = []" by simp
  from buffered_frame_sent_once_after_connected[OF f r0 n0 o r2 c2] obtain w3 where
    s3: "step w2 (GatewayOpen 0) = Inr w3" and
    o3: "out w3 = out w2 @
           ClientSend (Stringified (notification ''connected''
              (''Gateway live at '' @ ''ws://127.0.0.1:18789'') (now w2)))
           # map (GatewaySend 0) (buffer ?w0 @ Raw ''ping'' # map Raw (client_frames [Tick 50]))"
    by blast
  from r2 s3 have "run ?w0 [ClientMessage ''ping'', Tick 50, GatewayOpen 0] = Inr w3"
    using run_append[of ?w0 "[ClientMessage ''ping'', Tick 50]" "[GatewayOpen 0]"]
    by (simp del: step.simps)
  moreover from o3 o2 t2 b0 have "out w3 =
      [ClientSend (Stringified
            (notification ''connected'' ''Gateway live at ws://127.0.0.1:18789'' 50)),
          GatewaySend 0 (Raw ''ping'')]"
    by (simp add: client_frames_def)
  ultimately show ?thesis using f by simp
qed

text \<open>
  C7 as it is written fails when the browser socket is not open at the moment the upstream
  opens: \<^verbatim>\<open>sendStatus\<close> then sends nothing, and the buffer is flushed all the same. First
  run: the close frame of the browser has arrived before the upstream opens. Second run:
  the browser connection has closed while a reconnect timer was pending, the timer fires
  and the new socket opens. In both the upstream is handed the frame and no notification
  \<^verbatim>\<open>connected\<close> is in the trace.
\<close>

theorem buffered_frame_sent_without_connected_counterexample:
  "feasible (init ''ws://127.0.0.1:18789'' 0 Created)
     [ClientMessage ''ping'', ClientClosing, GatewayOpen 0] \<and>
   map_sum id out (run (init ''ws://127.0.0.1:18789'' 0 Created)
                     [ClientMessage ''ping'', ClientClosing, GatewayOpen 0]) =
     Inr [GatewaySend 0 (Raw ''ping'')] \<and>
   feasible (init ''ws://127.0.0.1:18789'' 0 Created)
     [GatewayClose 0, ClientMessage ''ping'', ClientClose, Tick 3000, TimerFire Created, GatewayOpen 1] \<and>
   map_sum id out (run (init ''ws://127.0.0.1:18789'' 0 Created)
     [GatewayClose 0, ClientMessage ''ping'', ClientClose, Tick 3000, TimerFire Created, GatewayOpen 1]) =
     Inr [ClientSend (Stringified (notification ''disconnected'' closed_message 0)),
          SetTimeout 3000, GatewaySend 1 (Raw ''ping'')]"
  by (simp add: handler_defs notification_def)

subsection \<open>Failed connect attempts\<close>

text \<open>Every run that the environment can produce goes on without an uncaught exception.\<close>

lemma never_throws:
  assumes "inv w"
  shows "\<forall>es. feasible w es \<longrightarrow> (\<exists>w'. run w es = Inr w')"
  using run_inv[OF assms] by blast

text \<open>
  C6 (as amended). Every failed upstream connect attempt is reported to the client via a
  StatusNotification with state \<^verbatim>\<open>error\<close> whenever the client connection is open, be it
  a connect failure or handshake timeout, which the socket signals by its \<^verbatim>\<open>error\<close>
  event followed by its \<^verbatim>\<open>close\<close> event, or a constructor that throws; one that
  fails through the events of the socket is treated identically to a closed connection
  for reconnect-scheduling purposes; it never terminates the client connection and is
  never fatal to the Bridge or the hosting process.

  In the statement, \<open>w\<close> is any state a run of the bridge reaches. First part: an attempt
  is in flight on socket \<open>sid\<close> and fails with message \<open>m\<close>; \<open>w1\<close> is the state after
  the failure and \<open>w2\<close> the state after a close of that socket alone. The two traces differ
  by the notification \<^verbatim>\<open>error\<close> only, and timers and sockets are the same. Second and
  third part: the constructor throws in the call made by a timer, or in the call made
  when the browser connects. In each part the browser socket and \<open>alive\<close> are as before,
  the handlers return, and so does every handler in whatever follows.
\<close>

theorem failed_attempt_reported_and_retried:
  assumes "feasible (init url t0 c) es"
    and "run (init url t0 c) es = Inr w"
  shows "(\<forall>sid m. enabled w (GatewayOpen sid) \<longrightarrow>
            feasible w (connect_failure sid m) \<and>
            (\<exists>w1 w2. run w (connect_failure sid m) = Inr w1 \<and> run w [GatewayClose sid] = Inr w2 \<and>
               out w1 = out w @
                 (if clientSocket w = OPEN
                  then [ClientSend (Stringified (notification ''error'' m (now w)))] else []) @
                 (if clientSocket w = OPEN
                  then [ClientSend (Stringified (notification ''disconnected'' closed_message (now w)))]
                  else []) @
                 (if alive w then [SetTimeout RECONNECT_DELAY] else []) \<and>
               out w2 = out w @
                 (if clientSocket w = OPEN
                  then [ClientSend (Stringified (notification ''disconnected'' closed_message (now w)))]
                  else []) @
                 (if alive w then [SetTimeout RECONNECT_DELAY] else []) \<and>
               timers w1 = timers w2 \<and> sockets w1 = sockets w2 \<and>
               gatewaySocket w1 = gatewaySocket w2 \<and>
               timers w1 = (if alive w then [now w + RECONNECT_DELAY] else []) \<and>
               in_flight w1 = [] \<and>
               clientSocket w1 = clientSocket w \<and> alive w1 = alive w \<and> buffer w1 = buffer w \<and>
               (\<forall>es'. feasible w1 es' \<longrightarrow> (\<exists>w'. run w1 es' = Inr w')))) \<and>
         (\<forall>r. enabled w (TimerFire (Threw r)) \<longrightarrow>
            (\<exists>w1. step w (TimerFire (Threw r)) = Inr w1 \<and>
               out w1 = out w @
                 (if clientSocket w = OPEN
                  then [ClientSend (Stringified
                          (notification ''error'' (''Cannot create socket: '' @ r) (now w)))]
                  else []) \<and>
               clientSocket w1 = clientSocket w \<and> alive w1 = alive w \<and> buffer w1 = buffer w \<and>
               (\<forall>es'. feasible w1 es' \<longrightarrow> (\<exists>w'. run w1 es' = Inr w')))) \<and>
         (\<forall>r. out (init url t0 (Threw r)) =
                 [ClientSend (Stringified
                    (notification ''error'' (''Cannot create socket: '' @ r) t0))] \<and>
              clientSocket (init url t0 (Threw r)) = OPEN \<and> alive (init url t0 (Threw r)) \<and>
              (\<forall>es'. feasible (init url t0 (Threw r)) es' \<longrightarrow>
                 (\<exists>w'. run (init url t0 (Threw r)) es' = Inr w')))"
proof -
  from run_inv[OF inv_init assms(1)] assms(2) have iw: "inv w" by simp
  have A: "feasible w (connect_failure sid m) \<and>
            (\<exists>w1 w2. run w (connect_failure sid m) = Inr w1 \<and> run w [GatewayClose sid] = Inr w2 \<and>
               out w1 = out w @
                 (if clientSocket w = OPEN
                  then [ClientSend (Stringified (notification ''error'' m (now w)))] else []) @
                 (if clientSocket w = OPEN
                  then [ClientSend (Stringified (notification ''disconnected'' closed_message (now w)))]
                  else []) @
                 (if alive w then [SetTimeout RECONNECT_DELAY] else []) \<and>
               out w2 = out w @
                 (if clientSocket w = OPEN
                  then [ClientSend (Stringified (notification ''disconnected'' closed_message (now w)))]
                  else []) @
                 (if alive w then [SetTimeout RECONNECT_DELAY] else []) \<and>
               timers w1 = timers w2 \<and> sockets w1 = sockets w2 \<and>
               gatewaySocket w1 = gatewaySocket w2 \<and>
               timers w1 = (if alive w then [now w + RECONNECT_DELAY] else []) \<and>
               in_flight w1 = [] \<and>
               clientSocket w1 = clientSocket w \<and> alive w1 = alive w \<and> buffer w1 = buffer w \<and>
               (\<forall>es'. feasible w1 es' \<longrightarrow> (\<exists>w'. run w1 es' = Inr w')))"
    if en: "enabled w (GatewayOpen sid)" for sid m
  proof -
    from en have sid: "sid < length (sockets w)" "sockets w ! sid = CONNECTING"
      by simp_all
    with iw have cur: "gatewaySocket w = Some sid" "Suc sid = length (sockets w)" "timers w = []"
      using only_last_live[of w sid] by simp_all
    have f: "feasible w (connect_failure sid m)"
      using sid by (simp add: connect_failure_def onGatewayError_def)
    from run_inv[OF iw f] obtain w1 where
      r1: "run w (connect_failure sid m) = Inr w1" and i1: "inv w1"
      by blast
    have f2: "feasible w [GatewayClose sid]"
      using sid by simp
    from run_inv[OF iw f2] obtain w2 where
      r2: "run w [GatewayClose sid] = Inr w2"
      by blast
    from r1 have e1: "w1 = onGatewayClose
        ((onGatewayError m (w\<lparr>sockets := (sockets w)[sid := CLOSING]\<rparr>))
           \<lparr>sockets := (sockets w)[sid := CLOSED]\<rparr>)"
      by (simp add: connect_failure_def onGatewayError_def)
    from r2 have e2: "w2 = onGatewayClose (w\<lparr>sockets := (sockets w)[sid := CLOSED]\<rparr>)"
      by simp
    have o1: "out w1 = out w @
                 (if clientSocket w = OPEN
                  then [ClientSend (Stringified (notification ''error'' m (now w)))] else []) @
                 (if clientSocket w = OPEN
                  then [ClientSend (Stringified (notification ''disconnected'' closed_message (now w)))]
                  else []) @
                 (if alive w then [SetTimeout RECONNECT_DELAY] else [])"
      unfolding e1
      by (simp add: onGatewayError_def onGatewayClose_def Let_def sendStatus_def notification_def)
    have o2: "out w2 = out w @
                 (if clientSocket w = OPEN
                  then [ClientSend (Stringified (notification ''disconnected'' closed_message (now w)))]
                  else []) @
                 (if alive w then [SetTimeout RECONNECT_DELAY] else [])"
      unfolding e2
      by (simp add: onGatewayClose_def Let_def sendStatus_def notification_def)
    have same: "timers w1 = timers w2" "sockets w1 = sockets w2" "gatewaySocket w1 = gatewaySocket w2"
      unfolding e1 e2
      by (simp_all add: onGatewayError_def onGatewayClose_def Let_def sendStatus_def)
    have t1: "timers w1 = (if alive w then [now w + RECONNECT_DELAY] else [])"
      unfolding e1 using cur(3)
      by (simp add: onGatewayError_def onGatewayClose_def Let_def sendStatus_def)
    have keep: "clientSocket w1 = clientSocket w" "alive w1 = alive w" "buffer w1 = buffer w"
      unfolding e1
      by (simp_all add: onGatewayError_def onGatewayClose_def Let_def sendStatus_def)
    have s1: "sockets w1 = (sockets w)[sid := CLOSED]"
      unfolding e1
      by (simp add: onGatewayError_def onGatewayClose_def Let_def sendStatus_def)
    have others: "sockets w ! i = CLOSED" if "i < length (sockets w)" "i \<noteq> sid" for i
    proof -
      from that cur(2) have "Suc i < length (sockets w)" by arith
      with iw show ?thesis by (simp add: inv_def)
    qed
    have "\<forall>i < length (sockets w1). sockets w1 ! i = CLOSED"
      unfolding s1 using others sid(1) by (auto simp: nth_list_update)
    then have fl: "in_flight w1 = []"
      by (auto simp: in_flight_def filter_empty_conv in_set_conv_nth)
    from f r1 r2 o1 o2 same t1 fl keep never_throws[OF i1] show ?thesis
      by blast
  qed
  have B: "\<exists>w1. step w (TimerFire (Threw r)) = Inr w1 \<and>
               out w1 = out w @
                 (if clientSocket w = OPEN
                  then [ClientSend (Stringified
                          (notification ''error'' (''Cannot create socket: '' @ r) (now w)))]
                  else []) \<and>
               clientSocket w1 = clientSocket w \<and> alive w1 = alive w \<and> buffer w1 = buffer w \<and>
               (\<forall>es'. feasible w1 es' \<longrightarrow> (\<exists>w'. run w1 es' = Inr w'))"
    if en: "enabled w (TimerFire (Threw r))" for r
  proof -
    from step_inv[OF iw en] obtain w1 where
      s1: "step w (TimerFire (Threw r)) = Inr w1" and i1: "inv w1"
      by blast
    from s1 have e1: "w1 = connectGateway (Threw r) (w\<lparr>timers := tl (timers w)\<rparr>)"
      by simp
    have "out w1 = out w @
                 (if clientSocket w = OPEN
                  then [ClientSend (Stringified
                          (notification ''error'' (''Cannot create socket: '' @ r) (now w)))]
                  else [])"
      "clientSocket w1 = clientSocket w" "alive w1 = alive w" "buffer w1 = buffer w"
      unfolding e1
      by (simp_all add: connectGateway_def sendStatus_def notification_def)
    with s1 never_throws[OF i1] show ?thesis
      by blast
  qed
  have C: "out (init url t0 (Threw r)) =
                 [ClientSend (Stringified
                    (notification ''error'' (''Cannot create socket: '' @ r) t0))] \<and>
              clientSocket (init url t0 (Threw r)) = OPEN \<and> alive (init url t0 (Threw r)) \<and>
              (\<forall>es'. feasible (init url t0 (Threw r)) es' \<longrightarrow>
                 (\<exists>w'. run (init url t0 (Threw r)) es' = Inr w'))" for r
    using never_throws[OF inv_init, of url t0 "Threw r"]
    by (simp add: init_def connectGateway_def sendStatus_def notification_def)
  from A B C show ?thesis
    by blast
qed

theorem failed_attempt_reported_and_retried_witness:
  "feasible (init ''ws://127.0.0.1:18789'' 0 Created)
     (connect_failure 0 ''connect ECONNREFUSED 127.0.0.1:18789'') \<and>
   map_sum id (\<lambda>w. (out w, timers w, sockets w, alive w, clientSocket w))
     (run (init ''ws://127.0.0.1:18789'' 0 Created)
        (connect_failure 0 ''connect ECONNREFUSED 127.0.0.1:18789'')) =
     Inr ([ClientSend (Stringified
             (notification ''error'' ''connect ECONNREFUSED 127.0.0.1:18789'' 0)),
           ClientSend (Stringified (notification ''disconnected'' closed_message 0)),
           SetTimeout 3000],
          [3000], [CLOSED], True, OPEN) \<and>
   feasible (init ''ws://127.0.0.1:18789'' 0 Created)
     [GatewayClose 0, Tick 3000, TimerFire (Threw ''socket creation failed'')] \<and>
   map_sum id (\<lambda>w. (drop 2 (out w), alive w, clientSocket w))
     (run (init ''ws://127.0.0.1:18789'' 0 Created)
        [GatewayClose 0, Tick 3000, TimerFire (Threw ''socket creation failed'')]) =
     Inr ([ClientSend (Stringified
             (notification ''error'' ''Cannot create socket: socket creation failed'' 3000))],
          True, OPEN)"
proof -
  let ?w0 = "init ''ws://127.0.0.1:18789'' 0 Created"
  let ?m = "''connect ECONNREFUSED 127.0.0.1:18789''"
  let ?r = "''socket creation failed''"
  have f: "feasible ?w0 []" by simp
  have r: "run ?w0 [] = Inr ?w0" by simp
  have e: "enabled ?w0 (GatewayOpen 0)"
    by (simp add: handler_defs)
  have c: "clientSocket ?w0 = OPEN" "alive ?w0" "out ?w0 = []" "now ?w0 = 0"
    by (simp_all add: handler_defs)
  from failed_attempt_reported_and_retried[OF f r] e obtain w1 where
    ff: "feasible ?w0 (connect_failure 0 ?m)" and
    r1: "run ?w0 (connect_failure 0 ?m) = Inr w1" and
    o1: "out w1 = out ?w0 @
                 (if clientSocket ?w0 = OPEN
                  then [ClientSend (Stringified (notification ''error'' ?m (now ?w0)))] else []) @
                 (if clientSocket ?w0 = OPEN
                  then [ClientSend (Stringified (notification ''disconnected'' closed_message (now ?w0)))]
                  else []) @
                 (if alive ?w0 then [SetTimeout RECONNECT_DELAY] else [])" and
    t1: "timers w1 = (if alive ?w0 then [now ?w0 + RECONNECT_DELAY] else [])" and
    a1: "clientSocket w1 = clientSocket ?w0" "alive w1 = alive ?w0"
    by blast
  from r1 have s1: "sockets w1 = [CLOSED]"
    by (auto simp: connect_failure_def handler_defs)
  from o1 t1 a1 c have v1: "out w1 =
      [ClientSend (Stringified (notification ''error'' ?m 0)),
       ClientSend (Stringified (notification ''disconnected'' closed_message 0)),
       SetTimeout 3000]" "timers w1 = [3000]" "alive w1" "clientSocket w1 = OPEN"
    by (simp_all add: RECONNECT_DELAY_def)
  let ?es = "[GatewayClose 0, Tick 3000]"
  have f2: "feasible ?w0 ?es"
    by (simp add: handler_defs)
  obtain w where r2: "run ?w0 ?es = Inr w"
    by (simp add: handler_defs)
  then have w: "enabled w (TimerFire (Threw ?r))" "clientSocket w = OPEN" "alive w" "now w = 3000"
    "length (out w) = 2"
    by (auto simp: handler_defs)
  from failed_attempt_reported_and_retried[OF f2 r2] w(1) obtain w3 where
    s3: "step w (TimerFire (Threw ?r)) = Inr w3" and
    o3: "out w3 = out w @
                 (if clientSocket w = OPEN
                  then [ClientSend (Stringified
                          (notification ''error'' (''Cannot create socket: '' @ ?r) (now w)))]
                  else [])" and
    a3: "clientSocket w3 = clientSocket w" "alive w3 = alive w"
    by blast
  from r2 s3 have r3: "run ?w0 [GatewayClose 0, Tick 3000, TimerFire (Threw ?r)] = Inr w3"
    using run_append[of ?w0 ?es "[TimerFire (Threw ?r)]"]
    by (simp del: step.simps)
  have f3: "feasible ?w0 [GatewayClose 0, Tick 3000, TimerFire (Threw ?r)]"
    by (simp add: handler_defs)
  from o3 a3 w have v3: "drop 2 (out w3) =
      [ClientSend (Stringified
             (notification ''error'' ''Cannot create socket: socket creation failed'' 3000))]"
    "alive w3" "clientSocket w3 = OPEN"
    by simp_all
  from ff r1 v1 s1 f3 r3 v3 show ?thesis
    by simp
qed

text \<open>
  C6 as it is written fails in two places. A constructor that throws is reported, and
  then nothing is scheduled: no timer and no socket, where the close of a socket leaves a
  timer. And a failure that arrives after the close frame of the browser is not reported:
  \<^verbatim>\<open>sendStatus\<close> sends to an open browser socket only.
\<close>

theorem failed_attempt_counterexample:
  "out (init ''ws://127.0.0.1:99999'' 0 (Threw ''Invalid URL: ws://127.0.0.1:99999'')) =
     [ClientSend (Stringified
        (notification ''error'' ''Cannot create socket: Invalid URL: ws://127.0.0.1:99999'' 0))] \<and>
   timers (init ''ws://127.0.0.1:99999'' 0 (Threw ''Invalid URL: ws://127.0.0.1:99999'')) = [] \<and>
   sockets (init ''ws://127.0.0.1:99999'' 0 (Threw ''Invalid URL: ws://127.0.0.1:99999'')) = [] \<and>
   map_sum id timers (run (init ''ws://127.0.0.1:18789'' 0 Created) [GatewayClose 0]) = Inr [3000] \<and>
   feasible (init ''ws://127.0.0.1:18789'' 0 Created)
     (ClientClosing # connect_failure 0 ''connect ECONNREFUSED 127.0.0.1:18789'') \<and>
   map_sum id out (run (init ''ws://127.0.0.1:18789'' 0 Created)
     (ClientClosing # connect_failure 0 ''connect ECONNREFUSED 127.0.0.1:18789'')) =
     Inr [SetTimeout 3000]"
  by (simp add: handler_defs notification_def connect_failure_def)

subsection \<open>The close of the browser connection\<close>

text \<open>
  C2 fails on the code. The \<^verbatim>\<open>close\<close> handler of the browser socket sets \<open>alive\<close> to
  false and calls \<^verbatim>\<open>close()\<close> on the current upstream socket; it cancels no timer, and
  \<^verbatim>\<open>connectGateway\<close> does not test \<open>alive\<close>. In this run the first upstream socket fails,
  the browser connection closes while the reconnect timer is pending, the timer is still
  pending after the handler, it fires, and the socket it makes opens: in the end the
  browser socket is closed and an upstream socket is open.
\<close>

theorem reconnect_timer_outlives_client:
  "feasible (init ''ws://127.0.0.1:18789'' 0 Created)
     (connect_failure 0 ''connect ECONNREFUSED 127.0.0.1:18789'' @
      [ClientClose, Tick 3000, TimerFire Created, GatewayOpen 1]) \<and>
   map_sum id (\<lambda>w. (clientSocket w, alive w, sockets w, timers w))
     (run (init ''ws://127.0.0.1:18789'' 0 Created)
        (connect_failure 0 ''connect ECONNREFUSED 127.0.0.1:18789'' @ [ClientClose])) =
     Inr (CLOSED, False, [CLOSED], [3000]) \<and>
   map_sum id (\<lambda>w. (clientSocket w, alive w, sockets w, timers w))
     (run (init ''ws://127.0.0.1:18789'' 0 Created)
        (connect_failure 0 ''connect ECONNREFUSED 127.0.0.1:18789'' @
         [ClientClose, Tick 3000, TimerFire Created, GatewayOpen 1])) =
     Inr (CLOSED, False, [CLOSED, OPEN], [])"
  by (simp add: handler_defs connect_failure_def)

end
